theory Spec2Isabelle
  imports Main "HOL-Library.Sublist" "HOL-Library.Multiset"
begin

section \<open>The media-sharing server of beautiful-noise (\<open>server.js\<close>)\<close>

text \<open>
  The repository holds two listings of \<open>server.js\<close>. They agree on every handler except
  for the name given to an uploaded thumbnail (and a CORS header, which no handler reads):
  the first listing (lines 1-150) names it after the whole media filename, the second
  (lines 151-299) after the media filename without its extension. The upload handler is
  therefore defined once, with the naming of the thumbnail as an argument, and instantiated
  for each listing.

  Conventions of the embedding.
  \<^item> A metadata object is a \<open>record\<close> with the six fields the upload handler writes;
    \<open>null\<close> is \<open>None\<close>. Text fields of a request are optional strings (a field that is
    repeated in a form, which the multipart parser delivers as an array, is outside the
    model), and numbers are integers (\<open>Date.now()\<close> returns one).
  \<^item> Strings are lists of 8-bit characters.
  \<^item> Paths are relative to \<open>__dirname\<close>.
  \<^item> \<open>JSON.parse\<close> and \<open>JSON.stringify\<close> belong to the platform. They are arguments of
    the functions that call them, written \<open>P\<close> and \<open>S\<close>; \<open>P s = None\<close> stands for the
    \<open>SyntaxError\<close> thrown on a text that is not JSON. A document that is valid JSON is
    taken to hold an array of metadata objects, which is all \<open>saveMetadata\<close> ever writes.
  \<^item> \<open>String.prototype.toLowerCase\<close> and \<open>String.prototype.trim\<close> follow the Unicode
    tables of the platform. They too are arguments of the functions that call them,
    written \<open>L\<close> and \<open>T\<close>.
  \<^item> An exception is a value: a function that may throw returns \<open>error + 'a\<close>.
\<close>

subsection \<open>Data\<close>

record mediaRecord =
  filename :: string
  videoName :: string
  username :: string
  type :: string
  thumbnail :: "string option"
  uploadedAt :: int

text \<open>A file as the multipart parser hands it over: \<open>path\<close> is where it was staged.\<close>

record uploadedFile =
  originalname :: string
  mimetype :: string
  path :: string

text \<open>\<open>req.files.media[0]\<close>, \<open>req.files.thumbnail[0]\<close>, \<open>req.body.videoName\<close>, \<open>req.body.username\<close>.\<close>

record uploadRequest =
  files_media :: "uploadedFile option"
  files_thumbnail :: "uploadedFile option"
  body_videoName :: "string option"
  body_username :: "string option"

datatype json =
    JNull
  | JBool bool
  | JNum int
  | JStr string
  | JArr "json list"
  | JObj "(string \<times> json) list"

datatype body = Text string | Json json | Media "mediaRecord list" | Raw string

record reply =
  status :: nat
  content :: body

datatype error = ENOENT | EACCES | SyntaxError

subsection \<open>The file system\<close>

text \<open>
  A path holds nothing, a file with its text, or something that exists and cannot be
  opened (a directory, a file without permissions): reading and writing it throw.
\<close>

datatype node = File string | Unreadable

type_synonym fs = "string \<rightharpoonup> node"

definition existsSync :: "fs \<Rightarrow> string \<Rightarrow> bool" where
  "existsSync f p = (f p \<noteq> None)"

definition readFileSync :: "fs \<Rightarrow> string \<Rightarrow> error + string" where
  "readFileSync f p =
     (case f p of
        None \<Rightarrow> Inl ENOENT
      | Some Unreadable \<Rightarrow> Inl EACCES
      | Some (File s) \<Rightarrow> Inr s)"

definition writeFileSync :: "fs \<Rightarrow> string \<Rightarrow> string \<Rightarrow> error + fs" where
  "writeFileSync f p s =
     (case f p of
        Some Unreadable \<Rightarrow> Inl EACCES
      | _ \<Rightarrow> Inr (f(p \<mapsto> File s)))"

definition renameSync :: "fs \<Rightarrow> string \<Rightarrow> string \<Rightarrow> error + fs" where
  "renameSync f src dst =
     (case f src of
        None \<Rightarrow> Inl ENOENT
      | Some n \<Rightarrow> Inr ((f(src := None))(dst \<mapsto> n)))"

definition supportersFile :: string where
  "supportersFile = ''supporters.json''"

definition metadataFile :: string where
  "metadataFile = ''media-metadata.json''"

subsection \<open>Strings and paths of the platform\<close>

text \<open>\<open>String.prototype.includes\<close>: \<open>str_includes s q\<close> is \<open>s.includes(q)\<close>.\<close>

fun str_includes :: "string \<Rightarrow> string \<Rightarrow> bool" where
  "str_includes [] q = (q = [])"
| "str_includes (c # s) q = (prefix q (c # s) \<or> str_includes s q)"

text \<open>The decimal text of a number, as a template literal prints \<open>Date.now()\<close>.\<close>

definition digit :: "nat \<Rightarrow> char" where
  "digit d =
     (if d = 0 then CHR ''0'' else if d = 1 then CHR ''1'' else if d = 2 then CHR ''2''
      else if d = 3 then CHR ''3'' else if d = 4 then CHR ''4'' else if d = 5 then CHR ''5''
      else if d = 6 then CHR ''6'' else if d = 7 then CHR ''7'' else if d = 8 then CHR ''8''
      else CHR ''9'')"

fun toString :: "nat \<Rightarrow> string" where
  "toString n = (if n < 10 then [digit n] else toString (n div 10) @ [digit (n mod 10)])"

declare toString.simps [simp del]

text \<open>
  \<open>path.extname\<close> and \<open>path.parse(p).name\<close> (POSIX): both look at the last component of
  the path, trailing slashes dropped. The extension runs from the last dot of that
  component to its end; there is none when the component has no dot, when its only dot
  is its first character, or when the component is \<open>..\<close>.
\<close>

definition is_slash :: "char \<Rightarrow> bool" where
  "is_slash c = (c = CHR ''/'')"

definition is_dot :: "char \<Rightarrow> bool" where
  "is_dot c = (c = CHR ''.'')"

definition basename :: "string \<Rightarrow> string" where
  "basename p = rev (takeWhile (\<lambda>c. \<not> is_slash c) (dropWhile is_slash (rev p)))"

definition ext_of :: "string \<Rightarrow> string" where
  "ext_of b =
     (let tl_rev = takeWhile (\<lambda>c. \<not> is_dot c) (rev b);
          stem = take (length b - length tl_rev - 1) b
      in if \<not> list_ex is_dot b \<or> stem = [] \<or> b = ''..'' then []
         else drop (length stem) b)"

definition extname :: "string \<Rightarrow> string" where
  "extname p = ext_of (basename p)"

definition parse_name :: "string \<Rightarrow> string" where
  "parse_name p = (let b = basename p in take (length b - length (ext_of b)) b)"

text \<open>
  \<open>path.join\<close> on segments that need no normalisation (no empty segment, no \<open>.\<close> or
  \<open>..\<close> segment): the segments separated by slashes.
\<close>

fun path_join :: "string list \<Rightarrow> string" where
  "path_join [] = ''.''"
| "path_join [s] = s"
| "path_join (s # ss) = s @ ''/'' @ path_join ss"

subsection \<open>The metadata store (lines 29-40 and 185-196)\<close>

definition JSON_parse :: "(string \<Rightarrow> 'a option) \<Rightarrow> string \<Rightarrow> error + 'a" where
  "JSON_parse P s = (case P s of None \<Rightarrow> Inl SyntaxError | Some v \<Rightarrow> Inr v)"

text \<open>The body of the \<open>try\<close> block of \<open>readMetadata\<close>.\<close>

definition readMetadata_try :: "(string \<Rightarrow> mediaRecord list option) \<Rightarrow> fs \<Rightarrow> error + mediaRecord list" where
  "readMetadata_try P f =
     (case readFileSync f metadataFile of
        Inl e \<Rightarrow> Inl e
      | Inr s \<Rightarrow> JSON_parse P s)"

definition readMetadata :: "(string \<Rightarrow> mediaRecord list option) \<Rightarrow> fs \<Rightarrow> error + mediaRecord list" where
  "readMetadata P f =
     (if \<not> existsSync f metadataFile then Inr []
      else (case readMetadata_try P f of
              Inl e \<Rightarrow> Inr []
            | Inr v \<Rightarrow> Inr v))"

definition saveMetadata :: "(mediaRecord list \<Rightarrow> string) \<Rightarrow> fs \<Rightarrow> mediaRecord list \<Rightarrow> error + fs" where
  "saveMetadata S f data = writeFileSync f metadataFile (S data)"

subsection \<open>The upload handler (lines 43-91 and 199-241)\<close>

text \<open>Line 54: \<open>mediaFile.mimetype.startsWith('video') ? 'videos' : 'audios'\<close>.\<close>

definition mediaType :: "uploadedFile \<Rightarrow> string" where
  "mediaType mediaFile = (if prefix ''video'' (mimetype mediaFile) then ''videos'' else ''audios'')"

text \<open>\<open>a || b\<close> on an optional string: \<open>undefined\<close> and the empty string are falsy.\<close>

definition js_or :: "string option \<Rightarrow> string \<Rightarrow> string" where
  "js_or a b = (case a of None \<Rightarrow> b | Some s \<Rightarrow> if s = [] then b else s)"

text \<open>Lines 58-59; \<open>now1\<close> is what the first \<open>Date.now()\<close> returns.\<close>

definition mediaFilename :: "nat \<Rightarrow> uploadedFile \<Rightarrow> string" where
  "mediaFilename now1 mediaFile = toString now1 @ extname (originalname mediaFile)"

text \<open>Lines 66-73; \<open>now2\<close> is what the second \<open>Date.now()\<close> returns.\<close>

definition metadataEntry :: "nat \<Rightarrow> nat \<Rightarrow> uploadRequest \<Rightarrow> uploadedFile \<Rightarrow> mediaRecord" where
  "metadataEntry now1 now2 req mediaFile =
     \<lparr> filename = mediaFilename now1 mediaFile,
       videoName = js_or (body_videoName req) (originalname mediaFile),
       username = js_or (body_username req) ''Unknown'',
       type = mediaType mediaFile,
       thumbnail = None,
       uploadedAt = int now2 \<rparr>"

text \<open>Line 78 of the first listing, lines 229-230 of the second.\<close>

definition thumbFilename_first :: "string \<Rightarrow> string \<Rightarrow> string" where
  "thumbFilename_first mediaFilename' thumbExt = mediaFilename' @ thumbExt"

definition thumbFilename_second :: "string \<Rightarrow> string \<Rightarrow> string" where
  "thumbFilename_second mediaFilename' thumbExt = parse_name mediaFilename' @ thumbExt"

text \<open>The name the thumbnail gets, and the entry as it is pushed (lines 76-83, 227-234).\<close>

definition thumbFilename :: "(string \<Rightarrow> string \<Rightarrow> string) \<Rightarrow> nat \<Rightarrow> uploadedFile \<Rightarrow> uploadedFile \<Rightarrow> string" where
  "thumbFilename naming now1 mediaFile thumbFile =
     naming (mediaFilename now1 mediaFile) (extname (originalname thumbFile))"

definition pushedEntry :: "(string \<Rightarrow> string \<Rightarrow> string) \<Rightarrow> nat \<Rightarrow> nat \<Rightarrow> uploadRequest \<Rightarrow> uploadedFile \<Rightarrow> mediaRecord" where
  "pushedEntry naming now1 now2 req mediaFile =
     (case files_thumbnail req of
        None \<Rightarrow> metadataEntry now1 now2 req mediaFile
      | Some thumbFile \<Rightarrow>
          (metadataEntry now1 now2 req mediaFile)
            \<lparr> thumbnail := Some (''/media/thumbnails/'' @ thumbFilename naming now1 mediaFile thumbFile) \<rparr>)"

text \<open>The \<open>if (thumbFile)\<close> block: the move of the thumbnail.\<close>

definition moveThumbnail :: "(string \<Rightarrow> string \<Rightarrow> string) \<Rightarrow> nat \<Rightarrow> uploadRequest \<Rightarrow> uploadedFile \<Rightarrow> fs \<Rightarrow> error + fs" where
  "moveThumbnail naming now1 req mediaFile f =
     (case files_thumbnail req of
        None \<Rightarrow> Inr f
      | Some thumbFile \<Rightarrow>
          renameSync f (path thumbFile)
            (path_join [''uploads/thumbnails'', thumbFilename naming now1 mediaFile thumbFile]))"

text \<open>Lines 86-88: read, push, save.\<close>

definition pushMetadata :: "(string \<Rightarrow> mediaRecord list option) \<Rightarrow> (mediaRecord list \<Rightarrow> string) \<Rightarrow> fs \<Rightarrow> mediaRecord \<Rightarrow> error + fs" where
  "pushMetadata P S f entry =
     (case readMetadata P f of
        Inl e \<Rightarrow> Inl e
      | Inr allMetadata \<Rightarrow> saveMetadata S f (allMetadata @ [entry]))"

text \<open>
  The handler returns the file system it leaves behind and either the exception that
  escaped it or its response. An exception leaves the moves made before it in place.
\<close>

definition upload :: "(string \<Rightarrow> string \<Rightarrow> string) \<Rightarrow> (string \<Rightarrow> mediaRecord list option) \<Rightarrow> (mediaRecord list \<Rightarrow> string) \<Rightarrow> nat \<Rightarrow> nat \<Rightarrow> uploadRequest \<Rightarrow> fs \<Rightarrow> fs \<times> (error + reply)" where
  "upload naming P S now1 now2 req f =
     (case files_media req of
        None \<Rightarrow> (f, Inr \<lparr> status = 400, content = Text ''No media file uploaded.'' \<rparr>)
      | Some mediaFile \<Rightarrow>
          (case renameSync f (path mediaFile)
                  (path_join [''uploads'', mediaType mediaFile, mediaFilename now1 mediaFile]) of
             Inl e \<Rightarrow> (f, Inl e)
           | Inr f1 \<Rightarrow>
               (case moveThumbnail naming now1 req mediaFile f1 of
                  Inl e \<Rightarrow> (f1, Inl e)
                | Inr f2 \<Rightarrow>
                    (case pushMetadata P S f2 (pushedEntry naming now1 now2 req mediaFile) of
                       Inl e \<Rightarrow> (f2, Inl e)
                     | Inr f3 \<Rightarrow>
                         (f3, Inr \<lparr> status = 200,
                                    content = Json (JObj [(''message'', JStr ''Upload successful.'')]) \<rparr>)))))"

definition upload_first :: "(string \<Rightarrow> mediaRecord list option) \<Rightarrow> (mediaRecord list \<Rightarrow> string) \<Rightarrow> nat \<Rightarrow> nat \<Rightarrow> uploadRequest \<Rightarrow> fs \<Rightarrow> fs \<times> (error + reply)" where
  "upload_first = upload thumbFilename_first"

definition upload_second :: "(string \<Rightarrow> mediaRecord list option) \<Rightarrow> (mediaRecord list \<Rightarrow> string) \<Rightarrow> nat \<Rightarrow> nat \<Rightarrow> uploadRequest \<Rightarrow> fs \<Rightarrow> fs \<times> (error + reply)" where
  "upload_second = upload thumbFilename_second"

subsection \<open>Listing and search (lines 94-120 and 244-270)\<close>

text \<open>
  \<open>Array.prototype.sort\<close> is stable, and on integers the comparator
  \<open>(a, b) => b.uploadedAt - a.uploadedAt\<close> orders by decreasing \<open>uploadedAt\<close>: the
  stable sort on the negated timestamp.
\<close>

definition listing :: "(string \<Rightarrow> mediaRecord list option) \<Rightarrow> string \<Rightarrow> fs \<Rightarrow> error + reply" where
  "listing P t f =
     (if t \<notin> set [''videos'', ''audios'']
      then Inr \<lparr> status = 400, content = Json (JObj [(''error'', JStr ''Invalid media type'')]) \<rparr>
      else (case readMetadata P f of
              Inl e \<Rightarrow> Inl e
            | Inr allMetadata \<Rightarrow>
                Inr \<lparr> status = 200,
                      content = Media (sort_key (\<lambda>a. - uploadedAt a)
                                         (filter (\<lambda>item. type item = t) allMetadata)) \<rparr>))"

definition search_query :: "(string \<Rightarrow> string) \<Rightarrow> (string \<Rightarrow> string) \<Rightarrow> string option \<Rightarrow> string" where
  "search_query L T q = T (L (js_or q []))"

definition search_match :: "(string \<Rightarrow> string) \<Rightarrow> string \<Rightarrow> mediaRecord \<Rightarrow> bool" where
  "search_match L query item =
     (type item = ''videos'' \<and>
      (str_includes (L (videoName item)) query \<or>
       str_includes (L (username item)) query))"

definition search :: "(string \<Rightarrow> string) \<Rightarrow> (string \<Rightarrow> string) \<Rightarrow> (string \<Rightarrow> mediaRecord list option) \<Rightarrow> string option \<Rightarrow> fs \<Rightarrow> error + reply" where
  "search L T P q f =
     (let query = search_query L T q
      in if query = [] then Inr \<lparr> status = 200, content = Media [] \<rparr>
         else (case readMetadata P f of
                 Inl e \<Rightarrow> Inl e
               | Inr allMetadata \<Rightarrow>
                   Inr \<lparr> status = 200, content = Media (filter (search_match L query) allMetadata) \<rparr>))"

subsection \<open>Static files, support and supporters (lines 124-145 and 273-294)\<close>

text \<open>
  \<open>express.static\<close> on the \<open>uploads\<close> directory, mounted at \<open>/media\<close>: it answers with
  the file of that name, and only reads.
\<close>

definition serveStatic :: "string \<Rightarrow> fs \<Rightarrow> error + reply" where
  "serveStatic p f =
     (case readFileSync f (path_join [''uploads'', p]) of
        Inl e \<Rightarrow> Inr \<lparr> status = 404, content = Text ''Not Found'' \<rparr>
      | Inr s \<Rightarrow> Inr \<lparr> status = 200, content = Raw s \<rparr>)"

definition support_message :: string where
  "support_message =
     [CHR 0xF0, CHR 0x9F, CHR 0x8C, CHR 0x9F]
     @ '' Your support keeps this platform alive and growing! If you''
     @ [CHR 0xE2, CHR 0x80, CHR 0x99]
     @ ''ve enjoyed the content, consider sending a token of appreciation. Every contribution helps ''
     @ [CHR 0xE2, CHR 0x80, CHR 0x94]
     @ '' no matter the size. Thank you! ''
     @ [CHR 0xF0, CHR 0x9F, CHR 0x99, CHR 0x8F]"

definition support :: reply where
  "support = \<lparr> status = 200,
               content = Json (JObj [(''phone'', JStr ''+250783144083''),
                                     (''message'', JStr support_message)]) \<rparr>"

text \<open>The body of the \<open>try\<close> block of the supporters handler, then the handler.\<close>

definition supporters_try :: "(string \<Rightarrow> json option) \<Rightarrow> fs \<Rightarrow> error + reply" where
  "supporters_try PJ f =
     (if \<not> existsSync f supportersFile then Inr \<lparr> status = 200, content = Json (JArr []) \<rparr>
      else (case readFileSync f supportersFile of
              Inl e \<Rightarrow> Inl e
            | Inr data \<Rightarrow>
                (case JSON_parse PJ data of
                   Inl e \<Rightarrow> Inl e
                 | Inr supporters \<Rightarrow> Inr \<lparr> status = 200, content = Json supporters \<rparr>)))"

definition supporters :: "(string \<Rightarrow> json option) \<Rightarrow> fs \<Rightarrow> error + reply" where
  "supporters PJ f =
     (case supporters_try PJ f of
        Inl err \<Rightarrow> Inr \<lparr> status = 500, content = Json (JArr []) \<rparr>
      | Inr r \<Rightarrow> Inr r)"

subsection \<open>The routes\<close>

datatype request =
    Upload uploadRequest
  | Listing string
  | Search "string option"
  | Static string
  | Support
  | Supporters

definition handle :: "(string \<Rightarrow> string \<Rightarrow> string) \<Rightarrow> (string \<Rightarrow> mediaRecord list option) \<Rightarrow> (mediaRecord list \<Rightarrow> string) \<Rightarrow> (string \<Rightarrow> json option) \<Rightarrow> (string \<Rightarrow> string) \<Rightarrow> (string \<Rightarrow> string) \<Rightarrow> nat \<Rightarrow> nat \<Rightarrow> request \<Rightarrow> fs \<Rightarrow> fs \<times> (error + reply)" where
  "handle naming P S PJ L T now1 now2 r f =
     (case r of
        Upload req \<Rightarrow> upload naming P S now1 now2 req f
      | Listing t \<Rightarrow> (f, listing P t f)
      | Search q \<Rightarrow> (f, search L T P q f)
      | Static p \<Rightarrow> (f, serveStatic p f)
      | Support \<Rightarrow> (f, Inr support)
      | Supporters \<Rightarrow> (f, supporters PJ f))"

subsection \<open>Notions the properties are stated with\<close>

text \<open>The persisted collection: the array \<open>readMetadata\<close> returns.\<close>

definition collection :: "(string \<Rightarrow> mediaRecord list option) \<Rightarrow> fs \<Rightarrow> mediaRecord list" where
  "collection P f = (case readMetadata P f of Inl e \<Rightarrow> [] | Inr xs \<Rightarrow> xs)"

text \<open>An array is JSON-serializable when parsing its text gives it back.\<close>

definition serializable :: "(string \<Rightarrow> 'a option) \<Rightarrow> ('a \<Rightarrow> string) \<Rightarrow> 'a \<Rightarrow> bool" where
  "serializable P S d = (P (S d) = Some d)"

text \<open>The multipart parser stages the files of a request under \<open>uploads/temp/\<close>.\<close>

definition staged :: "uploadRequest \<Rightarrow> bool" where
  "staged req =
     ((case files_media req of None \<Rightarrow> True | Some m \<Rightarrow> prefix ''uploads/temp/'' (path m)) \<and>
      (case files_thumbnail req of None \<Rightarrow> True | Some t \<Rightarrow> prefix ''uploads/temp/'' (path t)))"


text \<open>The title and the uploader name a request submits, as the specification reads them.\<close>

definition submitted_title :: "uploadRequest \<Rightarrow> uploadedFile \<Rightarrow> string" where
  "submitted_title req mediaFile =
     (case body_videoName req of None \<Rightarrow> originalname mediaFile | Some s \<Rightarrow> s)"

definition submitted_uploader :: "uploadRequest \<Rightarrow> string" where
  "submitted_uploader req = (case body_username req of None \<Rightarrow> ''Unknown'' | Some s \<Rightarrow> s)"

subsection \<open>The JSON text of a metadata collection\<close>

text \<open>
  \<open>JSON.stringify(data, null, 2)\<close> on an array of metadata objects. A string is quoted as
  \<open>QuoteJSONString\<close> does it: the quotation mark, the backslash and the characters below
  \<open>0x20\<close> are escaped, every other character is copied. A number that is an integer is
  printed in decimal. The array and each object are laid out with an indentation of two
  spaces; the keys come in the order the upload handler writes them.
\<close>

definition dquote :: char where
  "dquote = CHR 0x22"

definition backslash :: char where
  "backslash = CHR 0x5C"

definition hex_digit :: "nat \<Rightarrow> char" where
  "hex_digit d =
     (if d < 10 then digit d else if d = 10 then CHR ''a'' else if d = 11 then CHR ''b''
      else if d = 12 then CHR ''c'' else if d = 13 then CHR ''d'' else if d = 14 then CHR ''e''
      else CHR ''f'')"

definition escape_char :: "char \<Rightarrow> string" where
  "escape_char c =
     (if c = CHR 0x08 then [backslash, CHR ''b'']
      else if c = CHR 0x09 then [backslash, CHR ''t'']
      else if c = CHR 0x0A then [backslash, CHR ''n'']
      else if c = CHR 0x0C then [backslash, CHR ''f'']
      else if c = CHR 0x0D then [backslash, CHR ''r'']
      else if c = dquote then [backslash, dquote]
      else if c = backslash then [backslash, backslash]
      else if (of_char c :: nat) < 32
        then [backslash, CHR ''u'', CHR ''0'', CHR ''0'',
              hex_digit (of_char c div 16), hex_digit (of_char c mod 16)]
      else [c])"

definition quote :: "string \<Rightarrow> string" where
  "quote s = dquote # concat (map escape_char s) @ [dquote]"

definition number_text :: "int \<Rightarrow> string" where
  "number_text n = (if n < 0 then CHR ''-'' # toString (nat (- n)) else toString (nat n))"

definition newline :: "nat \<Rightarrow> string" where
  "newline i = CHR 0x0A # replicate i (CHR '' '')"

definition member_text :: "nat \<Rightarrow> string \<Rightarrow> string \<Rightarrow> string" where
  "member_text i k v = newline i @ quote k @ '': '' @ v"

definition stringify_record :: "mediaRecord \<Rightarrow> string" where
  "stringify_record r =
     ''{''
     @ member_text 4 ''filename'' (quote (filename r)) @ '',''
     @ member_text 4 ''videoName'' (quote (videoName r)) @ '',''
     @ member_text 4 ''username'' (quote (username r)) @ '',''
     @ member_text 4 ''type'' (quote (type r)) @ '',''
     @ member_text 4 ''thumbnail'' (case thumbnail r of None \<Rightarrow> ''null'' | Some t \<Rightarrow> quote t) @ '',''
     @ member_text 4 ''uploadedAt'' (number_text (uploadedAt r))
     @ newline 2 @ ''}''"

fun elements :: "mediaRecord list \<Rightarrow> string" where
  "elements [] = []"
| "elements [r] = newline 2 @ stringify_record r"
| "elements (r # rs) = newline 2 @ stringify_record r @ '','' @ elements rs"

text \<open>
  The text is the one \<open>JSON.stringify\<close> prints as long as every timestamp is a safe
  integer (larger numbers are rounded, or printed with an exponent); beyond that the model
  says nothing.
\<close>

definition array_text :: "mediaRecord list \<Rightarrow> string" where
  "array_text data =
     (if data = [] then ''[]'' else ''['' @ elements data @ newline 0 @ '']'')"

definition MAX_SAFE_INTEGER :: int where
  "MAX_SAFE_INTEGER = 9007199254740991"

definition safe_integers :: "mediaRecord list \<Rightarrow> bool" where
  "safe_integers data = (\<forall>r \<in> set data. \<bar>uploadedAt r\<bar> \<le> MAX_SAFE_INTEGER)"

definition JSON_stringify_fragment :: "mediaRecord list \<Rightarrow> string option" where
  "JSON_stringify_fragment data = (if safe_integers data then Some (array_text data) else None)"

text \<open>
  \<open>JSON.parse\<close>, as far as the metadata document needs it. The text is cut into tokens as
  the JSON grammar has them (white space is space, tab, LF and CR); then the tokens are
  matched against an array of metadata objects. The answer has three values: the array
  parsed, \<open>NotJSON\<close> for a text on which \<open>JSON.parse\<close> throws its \<open>SyntaxError\<close>, and
  \<open>Unmodelled\<close> where the model says nothing: on a number with a fraction or an exponent,
  on \<open>-0\<close>, on an integer that is not safe, on a \<open>\u\<close> escape from \<open>0080\<close> upwards, and on
  every text of tokens that is not an array of objects with exactly the six keys in the
  order of the upload handler.
\<close>

datatype token =
    LBracket | RBracket | LBrace | RBrace | Comma | Colon
  | TString string | TNumber int | TNull | TTrue | TFalse

datatype 'a parsed = Parsed 'a | NotJSON | Unmodelled

definition is_ws :: "char \<Rightarrow> bool" where
  "is_ws c = (c = CHR '' '' \<or> c = CHR 0x09 \<or> c = CHR 0x0A \<or> c = CHR 0x0D)"

definition is_digit :: "char \<Rightarrow> bool" where
  "is_digit c = (48 \<le> (of_char c :: nat) \<and> (of_char c :: nat) \<le> 57)"

definition digits_value :: "string \<Rightarrow> int" where
  "digits_value ds = foldl (\<lambda>a c. 10 * a + (of_char c - 48)) 0 ds"

definition hex_value :: "char \<Rightarrow> nat option" where
  "hex_value c =
     (let n = (of_char c :: nat)
      in if 48 \<le> n \<and> n \<le> 57 then Some (n - 48)
         else if 97 \<le> n \<and> n \<le> 102 then Some (n - 87)
         else if 65 \<le> n \<and> n \<le> 70 then Some (n - 55)
         else None)"

definition simple_escape :: "char \<Rightarrow> char option" where
  "simple_escape e =
     (if e = dquote then Some dquote
      else if e = backslash then Some backslash
      else if e = CHR ''/'' then Some (CHR ''/'')
      else if e = CHR ''b'' then Some (CHR 0x08)
      else if e = CHR ''f'' then Some (CHR 0x0C)
      else if e = CHR ''n'' then Some (CHR 0x0A)
      else if e = CHR ''r'' then Some (CHR 0x0D)
      else if e = CHR ''t'' then Some (CHR 0x09)
      else None)"

definition unicode_escape :: "string \<Rightarrow> nat option" where
  "unicode_escape hs =
     (case map hex_value hs of
        [Some a, Some b, Some c, Some d] \<Rightarrow> Some (((a * 16 + b) * 16 + c) * 16 + d)
      | _ \<Rightarrow> None)"

text \<open>
  The inside of a string, after its opening quotation mark: the characters up to the
  closing one, escapes decoded, and the text that follows. A character below \<open>0x20\<close>, an
  unknown escape and a missing closing mark are errors of syntax.
\<close>

fun lex_string :: "string \<Rightarrow> string \<Rightarrow> (string \<times> string) parsed" where
  "lex_string acc [] = NotJSON"
| "lex_string acc (c # cs) =
     (if c = dquote then Parsed (acc, cs)
      else if c = backslash then
        (case cs of
           [] \<Rightarrow> NotJSON
         | e # cs' \<Rightarrow>
             if e = CHR ''u'' then
               (if length cs' < 4 then NotJSON
                else (case unicode_escape (take 4 cs') of
                        None \<Rightarrow> NotJSON
                      | Some v \<Rightarrow> if v < 128 then lex_string (acc @ [char_of v]) (drop 4 cs')
                                  else Unmodelled))
             else (case simple_escape e of
                     None \<Rightarrow> NotJSON
                   | Some d \<Rightarrow> lex_string (acc @ [d]) cs'))
      else if (of_char c :: nat) < 32 then NotJSON
      else lex_string (acc @ [c]) cs)"

text \<open>
  A number: an optional minus sign and digits, without a leading zero. What follows the
  digits is left to the next token.
\<close>

definition lex_number :: "string \<Rightarrow> token parsed" where
  "lex_number s =
     (let neg = (s \<noteq> [] \<and> hd s = CHR ''-'');
          body = (if neg then tl s else s);
          ds = takeWhile is_digit body;
          rest = dropWhile is_digit body
      in if ds = [] then NotJSON
         else if hd ds = CHR ''0'' \<and> 1 < length ds then NotJSON
         else if rest \<noteq> [] \<and> hd rest \<in> set ''.eE'' then Unmodelled
         else if neg \<and> digits_value ds = 0 then Unmodelled
         else if digits_value ds \<le> MAX_SAFE_INTEGER
           then Parsed (TNumber (if neg then - digits_value ds else digits_value ds))
         else Unmodelled)"

definition cons_token :: "token \<Rightarrow> token list parsed \<Rightarrow> token list parsed" where
  "cons_token t p =
     (case p of Parsed ts \<Rightarrow> Parsed (t # ts) | NotJSON \<Rightarrow> NotJSON | Unmodelled \<Rightarrow> Unmodelled)"

function tokens :: "string \<Rightarrow> token list parsed" where
  "tokens [] = Parsed []"
| "tokens (c # cs) =
     (if is_ws c then tokens cs
      else if c = CHR ''['' then cons_token LBracket (tokens cs)
      else if c = CHR '']'' then cons_token RBracket (tokens cs)
      else if c = CHR ''{'' then cons_token LBrace (tokens cs)
      else if c = CHR ''}'' then cons_token RBrace (tokens cs)
      else if c = CHR '','' then cons_token Comma (tokens cs)
      else if c = CHR '':'' then cons_token Colon (tokens cs)
      else if c = dquote then
        (case lex_string [] cs of
           Parsed (str, rest) \<Rightarrow> cons_token (TString str) (tokens rest)
         | NotJSON \<Rightarrow> NotJSON
         | Unmodelled \<Rightarrow> Unmodelled)
      else if c = CHR ''-'' \<or> is_digit c then
        (case lex_number (c # cs) of
           Parsed t \<Rightarrow> cons_token t (tokens (dropWhile is_digit cs))
         | NotJSON \<Rightarrow> NotJSON
         | Unmodelled \<Rightarrow> Unmodelled)
      else if prefix ''null'' (c # cs) then cons_token TNull (tokens (drop 3 cs))
      else if prefix ''true'' (c # cs) then cons_token TTrue (tokens (drop 3 cs))
      else if prefix ''false'' (c # cs) then cons_token TFalse (tokens (drop 4 cs))
      else NotJSON)"
  by pat_completeness auto
termination
proof (relation "measure length")
  show "wf (measure length)" by simp
next
  fix c cs x str rest
  assume "lex_string [] cs = Parsed x" and "(str, rest) = x"
  then have l: "lex_string [] cs = Parsed (str, rest)" by simp
  have "\<forall>acc t r. lex_string acc s = Parsed (t, r) \<longrightarrow> length r < Suc (length s)" for s
  proof (induction s rule: length_induct)
    case (1 s)
    show ?case
    proof (intro allI impI)
      fix acc t r
      assume p: "lex_string acc s = Parsed (t, r)"
      show "length r < Suc (length s)"
      proof (cases s)
        case Nil
        with p show ?thesis by simp
      next
        case s: (Cons c cs)
        consider (quote) "c = dquote"
          | (escape) "c \<noteq> dquote" "c = backslash"
          | (plain) "c \<noteq> dquote" "c \<noteq> backslash"
          by blast
        then show ?thesis
        proof cases
          case quote
          with p s show ?thesis by simp
        next
          case plain
          with p s have "lex_string (acc @ [c]) cs = Parsed (t, r)"
            by (simp split: if_splits)
          with "1.IH" s have "length r < Suc (length cs)" by simp
          with s show ?thesis by simp
        next
          case escape
          show ?thesis
          proof (cases cs)
            case Nil
            with p s escape show ?thesis by simp
          next
            case cs: (Cons e cs')
            show ?thesis
            proof (cases "e = CHR ''u''")
              case True
              with p s cs escape obtain v :: nat where
                "lex_string (acc @ [char_of v]) (drop 4 cs') = Parsed (t, r)"
                by (simp split: if_splits option.splits)
              moreover have "length (drop 4 cs') < length s"
                using s cs by simp
              ultimately have "length r < Suc (length (drop 4 cs'))"
                using "1.IH" by blast
              with s cs show ?thesis by simp
            next
              case False
              with p s cs escape obtain d where
                "lex_string (acc @ [d]) cs' = Parsed (t, r)"
                by (simp split: if_splits option.splits)
              moreover have "length cs' < length s"
                using s cs by simp
              ultimately have "length r < Suc (length cs')"
                using "1.IH" by blast
              with s cs show ?thesis by simp
            qed
          qed
        qed
      qed
    qed
  qed
  with l show "(rest, c # cs) \<in> measure length" by simp
qed (simp_all add: less_Suc_eq_le length_dropWhile_le)

declare lex_string.simps [simp del]
declare tokens.simps(2) [simp del]

text \<open>
  The 25 tokens of a metadata object, and the object that a list of tokens spells: the
  values are read off at their places, and the list must be the tokens of that object.
\<close>

definition record_tokens :: "mediaRecord \<Rightarrow> token list" where
  "record_tokens r =
     [LBrace,
      TString ''filename'', Colon, TString (filename r), Comma,
      TString ''videoName'', Colon, TString (videoName r), Comma,
      TString ''username'', Colon, TString (username r), Comma,
      TString ''type'', Colon, TString (type r), Comma,
      TString ''thumbnail'', Colon, (case thumbnail r of None \<Rightarrow> TNull | Some t \<Rightarrow> TString t), Comma,
      TString ''uploadedAt'', Colon, TNumber (uploadedAt r),
      RBrace]"

definition the_string :: "token \<Rightarrow> string option" where
  "the_string t = (case t of TString s \<Rightarrow> Some s | _ \<Rightarrow> None)"

definition the_nullable :: "token \<Rightarrow> string option option" where
  "the_nullable t = (case t of TString s \<Rightarrow> Some (Some s) | TNull \<Rightarrow> Some None | _ \<Rightarrow> None)"

definition the_number :: "token \<Rightarrow> int option" where
  "the_number t = (case t of TNumber n \<Rightarrow> Some n | _ \<Rightarrow> None)"

definition read_record :: "token list \<Rightarrow> mediaRecord option" where
  "read_record ts =
     (if length ts \<noteq> 25 then None
      else (case (the_string (ts ! 3), the_string (ts ! 7), the_string (ts ! 11),
                  the_string (ts ! 15), the_nullable (ts ! 19), the_number (ts ! 23)) of
              (Some fn, Some vn, Some un, Some ty, Some th, Some at) \<Rightarrow>
                (let r = \<lparr> filename = fn, videoName = vn, username = un, type = ty,
                           thumbnail = th, uploadedAt = at \<rparr>
                 in if ts = record_tokens r then Some r else None)
            | _ \<Rightarrow> None))"

text \<open>
  The objects of an array, after its opening bracket, up to the closing one.
\<close>

function read_records :: "token list \<Rightarrow> mediaRecord list option" where
  "read_records [] = None"
| "read_records (t # ts) =
     (case read_record (t # take 24 ts) of
        None \<Rightarrow> None
      | Some r \<Rightarrow>
          (case drop 24 ts of
             [RBracket] \<Rightarrow> Some [r]
           | Comma # rest \<Rightarrow> map_option ((#) r) (read_records rest)
           | _ \<Rightarrow> None))"
  by pat_completeness auto
termination
proof (relation "measure length")
  show "wf (measure length)" by simp
next
  fix t :: token and ts :: "token list" and r t' rest
  assume "drop 24 ts = t' # rest"
  then have "length (drop 24 ts) = length (t' # rest)" by (rule arg_cong)
  then have "length ts - 24 = Suc (length rest)" by (simp only: length_drop list.size(4))
  then have "length rest < Suc (length ts)" by arith
  then show "(rest, t # ts) \<in> measure length" by (simp only: in_measure list.size(4))
qed


declare read_records.simps(2) [simp del]

definition JSON_parse_fragment :: "string \<Rightarrow> mediaRecord list parsed" where
  "JSON_parse_fragment s =
     (case tokens s of
        NotJSON \<Rightarrow> NotJSON
      | Unmodelled \<Rightarrow> Unmodelled
      | Parsed ts \<Rightarrow>
          (case ts of
             LBracket # ts' \<Rightarrow>
               (if ts' = [RBracket] then Parsed []
                else (case read_records ts' of None \<Rightarrow> Unmodelled | Some rs \<Rightarrow> Parsed rs))
           | _ \<Rightarrow> Unmodelled))"

text \<open>
  The tokens of all the objects of an array, commas between them.
\<close>

fun collection_tokens :: "mediaRecord list \<Rightarrow> token list" where
  "collection_tokens [] = []"
| "collection_tokens [r] = record_tokens r"
| "collection_tokens (r # rs) = record_tokens r @ Comma # collection_tokens rs"

text \<open>
  A platform function extends the model when it returns what the model returns wherever
  the model returns something.
\<close>

definition extends_stringify :: "(mediaRecord list \<Rightarrow> string) \<Rightarrow> bool" where
  "extends_stringify S = (\<forall>data t. JSON_stringify_fragment data = Some t \<longrightarrow> S data = t)"

definition extends_parse :: "(string \<Rightarrow> mediaRecord list option) \<Rightarrow> bool" where
  "extends_parse P = (\<forall>s v. JSON_parse_fragment s = Parsed v \<longrightarrow> P s = Some v)"

subsection \<open>A sample installation\<close>

text \<open>
  Concrete runs need a concrete platform. On a text of ASCII characters, \<open>String.prototype.toLowerCase\<close> turns the letters
  \<open>A\<close> to \<open>Z\<close> into \<open>a\<close> to \<open>z\<close>, and \<open>String.prototype.trim\<close> strips tab, LF, VT, FF, CR
  and space from both ends. The texts of the sample installation are ASCII, and these two
  functions stand for the platform's in the sample runs.
\<close>

definition ascii_lower_char :: "char \<Rightarrow> char" where
  "ascii_lower_char c =
     (let n = (of_char c :: nat) in if 65 \<le> n \<and> n \<le> 90 then char_of (n + 32) else c)"

definition ascii_toLowerCase :: "string \<Rightarrow> string" where
  "ascii_toLowerCase s = map ascii_lower_char s"

definition ascii_is_space :: "char \<Rightarrow> bool" where
  "ascii_is_space c = (let n = (of_char c :: nat) in (9 \<le> n \<and> n \<le> 13) \<or> n = 32)"

definition ascii_trim :: "string \<Rightarrow> string" where
  "ascii_trim s = rev (dropWhile ascii_is_space (rev (dropWhile ascii_is_space s)))"

text \<open>
  \<open>table_parse\<close> and \<open>table_stringify\<close> are
  \<open>JSON.parse\<close> and \<open>JSON.stringify\<close> cut down to the documents of a table, each given
  with its text; any other text is not JSON.
\<close>

definition table_parse :: "(string \<times> 'a) list \<Rightarrow> string \<Rightarrow> 'a option" where
  "table_parse tab s = map_of tab s"

definition table_stringify :: "(string \<times> 'a) list \<Rightarrow> 'a \<Rightarrow> string" where
  "table_stringify tab d = (case map_of (map (\<lambda>(s, v). (v, s)) tab) d of None \<Rightarrow> [] | Some s \<Rightarrow> s)"

text \<open>The modelled fragment of \<open>JSON.stringify\<close> and \<open>JSON.parse\<close>, as a platform.\<close>

definition fragment_stringify :: "mediaRecord list \<Rightarrow> string" where
  "fragment_stringify data = (case JSON_stringify_fragment data of None \<Rightarrow> [] | Some t \<Rightarrow> t)"

definition fragment_parse :: "string \<Rightarrow> mediaRecord list option" where
  "fragment_parse s = (case JSON_parse_fragment s of Parsed v \<Rightarrow> Some v | _ \<Rightarrow> None)"

text \<open>A library of three videos and one audio track.\<close>

definition sunset :: mediaRecord where
  "sunset = \<lparr> filename = ''100.mp4'', videoName = ''Sunset Drive'', username = ''ana'',
              type = ''videos'', thumbnail = None, uploadedAt = 100 \<rparr>"

definition harbour :: mediaRecord where
  "harbour = \<lparr> filename = ''300.mp4'', videoName = ''Harbour'', username = ''DriveBy'',
               type = ''videos'', thumbnail = Some ''/media/thumbnails/300.png'', uploadedAt = 300 \<rparr>"

definition homeward :: mediaRecord where
  "homeward = \<lparr> filename = ''150.mp3'', videoName = ''Drive Home'', username = ''ana'',
                type = ''audios'', thumbnail = None, uploadedAt = 150 \<rparr>"

definition morning :: mediaRecord where
  "morning = \<lparr> filename = ''200.webm'', videoName = ''Morning'', username = ''bo'',
               type = ''videos'', thumbnail = None, uploadedAt = 200 \<rparr>"

definition library :: "mediaRecord list" where
  "library = [sunset, harbour, homeward, morning]"

text \<open>
  An upload of \<open>clip.mp4\<close> with the thumbnail \<open>cover.jpg\<close>, titled and anonymous; the same
  upload with the title field left empty; and a picture sent as the media file.
\<close>

definition clip :: uploadedFile where
  "clip = \<lparr> originalname = ''clip.mp4'', mimetype = ''video/mp4'', path = ''uploads/temp/5f1c'' \<rparr>"

definition cover :: uploadedFile where
  "cover = \<lparr> originalname = ''cover.jpg'', mimetype = ''image/jpeg'', path = ''uploads/temp/9a0e'' \<rparr>"

definition picture :: uploadedFile where
  "picture = \<lparr> originalname = ''photo.png'', mimetype = ''image/png'', path = ''uploads/temp/77b2'' \<rparr>"

definition night_ride :: uploadRequest where
  "night_ride = \<lparr> files_media = Some clip, files_thumbnail = Some cover,
                  body_videoName = Some ''Night Ride'', body_username = None \<rparr>"

definition untitled :: uploadRequest where
  "untitled = \<lparr> files_media = Some clip, files_thumbnail = None,
                body_videoName = Some [], body_username = Some ''cy'' \<rparr>"

definition no_media :: uploadRequest where
  "no_media = \<lparr> files_media = None, files_thumbnail = Some cover,
                body_videoName = Some ''Night Ride'', body_username = None \<rparr>"

text \<open>The entries these uploads push at the times 1000 and 1001, in either listing.\<close>

definition night_ride_first :: mediaRecord where
  "night_ride_first =
     \<lparr> filename = ''1000.mp4'', videoName = ''Night Ride'', username = ''Unknown'',
       type = ''videos'', thumbnail = Some ''/media/thumbnails/1000.mp4.jpg'', uploadedAt = 1001 \<rparr>"

definition night_ride_second :: mediaRecord where
  "night_ride_second =
     \<lparr> filename = ''1000.mp4'', videoName = ''Night Ride'', username = ''Unknown'',
       type = ''videos'', thumbnail = Some ''/media/thumbnails/1000.jpg'', uploadedAt = 1001 \<rparr>"

definition untitled_entry :: mediaRecord where
  "untitled_entry =
     \<lparr> filename = ''1000.mp4'', videoName = ''clip.mp4'', username = ''cy'',
       type = ''videos'', thumbnail = None, uploadedAt = 1001 \<rparr>"

text \<open>The documents of the sample platform, and its file system before the upload.\<close>

definition documents :: "(string \<times> mediaRecord list) list" where
  "documents =
     [(''[]'', []),
      (''[sunset, harbour, homeward, morning]'', library),
      (''[sunset, harbour, homeward, morning, night ride (first)]'', library @ [night_ride_first]),
      (''[sunset, harbour, homeward, morning, night ride (second)]'', library @ [night_ride_second]),
      (''[sunset, harbour, homeward, morning, untitled]'', library @ [untitled_entry])]"

definition supporter_documents :: "(string \<times> json) list" where
  "supporter_documents =
     [(''[{name: dee, amount: 5}]'', JArr [JObj [(''name'', JStr ''dee''), (''amount'', JNum 5)]])]"

definition disk :: fs where
  "disk = [metadataFile \<mapsto> File ''[sunset, harbour, homeward, morning]'',
           ''uploads/temp/5f1c'' \<mapsto> File ''(video)'',
           ''uploads/temp/9a0e'' \<mapsto> File ''(image)'']"

section \<open>Properties\<close>

subsection \<open>Reading and writing the metadata document\<close>

lemma readMetadata_collection: "readMetadata P f = Inr (collection P f)"
  by (simp add: collection_def readMetadata_def split: sum.splits)

lemma readMetadata_cong: "f metadataFile = g metadataFile \<Longrightarrow> readMetadata P f = readMetadata P g"
  by (simp add: readMetadata_def readMetadata_try_def readFileSync_def existsSync_def)

lemma collection_cong: "f metadataFile = g metadataFile \<Longrightarrow> collection P f = collection P g"
  by (simp add: collection_def readMetadata_cong [of f g])

lemma saveMetadata_written:
  "saveMetadata S f d = Inr f' \<Longrightarrow> f' = f(metadataFile \<mapsto> File (S d))"
  by (auto simp: saveMetadata_def writeFileSync_def split: option.splits node.splits)

lemma readMetadata_after_save:
  "saveMetadata S f d = Inr f' \<Longrightarrow>
   readMetadata P f' = Inr (case P (S d) of None \<Rightarrow> [] | Some v \<Rightarrow> v)"
  by (auto simp: readMetadata_def readMetadata_try_def readFileSync_def existsSync_def
        JSON_parse_def dest!: saveMetadata_written split: option.splits)

lemmas sample_records =
  library_def sunset_def harbour_def homeward_def morning_def
  night_ride_first_def night_ride_second_def untitled_entry_def

subsection \<open>Strings\<close>


lemma ascii_lower_char_idem: "ascii_lower_char (ascii_lower_char c) = ascii_lower_char c"
proof -
  have "of_char (char_of (of_char c + 32 :: nat)) = (of_char c + 32 :: nat)"
    if "(of_char c :: nat) \<le> 90"
    using that by simp
  then show ?thesis
    by (auto simp: ascii_lower_char_def Let_def)
qed

lemma set_ascii_trim: "set (ascii_trim s) \<subseteq> set s"
proof -
  have "set (ascii_trim s) \<subseteq> set (dropWhile ascii_is_space s)"
    unfolding ascii_trim_def
    using set_dropWhileD [of _ ascii_is_space "rev (dropWhile ascii_is_space s)"] by auto
  also have "\<dots> \<subseteq> set s"
    using set_dropWhileD [of _ ascii_is_space s] by auto
  finally show ?thesis .
qed

text \<open>On ASCII text the normalized query is in lower case, whatever the query.\<close>

lemma ascii_search_query_lower:
  "ascii_toLowerCase (search_query ascii_toLowerCase ascii_trim q)
   = search_query ascii_toLowerCase ascii_trim q"
proof -
  have "ascii_lower_char c = c" if "c \<in> set (search_query ascii_toLowerCase ascii_trim q)" for c
  proof -
    from that set_ascii_trim have "c \<in> set (ascii_toLowerCase (js_or q []))"
      unfolding search_query_def by blast
    then show ?thesis
      by (auto simp: ascii_toLowerCase_def ascii_lower_char_idem)
  qed
  then show ?thesis
    by (simp add: ascii_toLowerCase_def [of "search_query ascii_toLowerCase ascii_trim q"] map_idI)
qed


subsection \<open>Generated file names\<close>

text \<open>
  The decimal text of a number has neither a dot nor a slash, and an extension is empty or
  a dot followed by characters that are neither: so \<open>path.parse\<close> splits a generated
  media filename into the timestamp and the extension it was built from.
\<close>

lemma digit_plain: "\<not> is_dot (digit d) \<and> \<not> is_slash (digit d)"
  by (simp add: digit_def is_dot_def is_slash_def)

lemma toString_plain: "c \<in> set (toString n) \<Longrightarrow> \<not> is_dot c \<and> \<not> is_slash c"
proof (induction n rule: toString.induct)
  case (1 n)
  show ?case
  proof (cases "n < 10")
    case True
    with "1.prems" show ?thesis
      by (simp add: toString.simps [of n] digit_plain)
  next
    case False
    with "1.prems" "1.IH" show ?thesis
      by (auto simp: toString.simps [of n] digit_plain)
  qed
qed

lemma toString_nonempty: "toString n \<noteq> []"
  by (subst toString.simps) simp

lemma basename_plain:
  assumes "\<And>c. c \<in> set p \<Longrightarrow> \<not> is_slash c"
  shows "basename p = p"
proof -
  have d: "dropWhile is_slash (rev p) = rev p"
  proof (cases "rev p")
    case Nil
    then show ?thesis by simp
  next
    case (Cons c cs)
    then have "c \<in> set p"
      by (metis list.set_intros(1) set_rev)
    with assms Cons show ?thesis by simp
  qed
  have t: "takeWhile (\<lambda>c. \<not> is_slash c) (rev p) = rev p"
    using assms by (simp add: takeWhile_eq_all_conv)
  show ?thesis
    unfolding basename_def d t by simp
qed

lemma set_basename: "c \<in> set (basename p) \<Longrightarrow> \<not> is_slash c"
  by (auto simp: basename_def dest: set_takeWhileD)

lemma ext_of_no_dot:
  assumes "\<And>c. c \<in> set b \<Longrightarrow> \<not> is_dot c"
  shows "ext_of b = []"
  using assms by (auto simp: ext_of_def Let_def list_ex_iff)

lemma ext_of_last_dot:
  assumes "\<And>c. c \<in> set r \<Longrightarrow> \<not> is_dot c"
  shows "ext_of (s @ CHR ''.'' # r)
         = (if s = [] \<or> s @ CHR ''.'' # r = ''..'' then [] else CHR ''.'' # r)"
proof -
  have "takeWhile (\<lambda>c. \<not> is_dot c) (rev r @ CHR ''.'' # rev s)
        = rev r @ takeWhile (\<lambda>c. \<not> is_dot c) (CHR ''.'' # rev s)"
    by (rule takeWhile_append2) (use assms in simp)
  then have t: "takeWhile (\<lambda>c. \<not> is_dot c) (rev (s @ CHR ''.'' # r)) = rev r"
    by (simp add: is_dot_def)
  have e: "list_ex is_dot (s @ CHR ''.'' # r)"
    by (simp add: list_ex_iff is_dot_def)
  show ?thesis
    unfolding ext_of_def Let_def t using e by simp
qed

lemma ext_of_shape:
  "ext_of b = [] \<or>
   (\<exists>r. ext_of b = CHR ''.'' # r \<and> (\<forall>c \<in> set r. \<not> is_dot c) \<and> set r \<subseteq> set b)"
proof (cases "CHR ''.'' \<in> set b")
  case False
  then have "ext_of b = []"
    by (intro ext_of_no_dot) (auto simp: is_dot_def)
  then show ?thesis ..
next
  case True
  then obtain s r where b: "b = s @ CHR ''.'' # r" and r: "CHR ''.'' \<notin> set r"
    by (auto dest: split_list_last)
  from r have nd: "\<And>c. c \<in> set r \<Longrightarrow> \<not> is_dot c"
    by (auto simp: is_dot_def)
  have "ext_of b = [] \<or> ext_of b = CHR ''.'' # r"
  proof -
    have "ext_of (s @ CHR ''.'' # r)
         = (if s = [] \<or> s @ CHR ''.'' # r = ''..'' then [] else CHR ''.'' # r)"
      by (rule ext_of_last_dot) (rule nd)
    then show ?thesis
      unfolding b by (simp split: if_splits)
  qed
  moreover have "set r \<subseteq> set b"
    using b by auto
  ultimately show ?thesis
    using nd by blast
qed

lemma extname_shape:
  "extname p = [] \<or>
   (\<exists>r. extname p = CHR ''.'' # r \<and> (\<forall>c \<in> set r. \<not> is_dot c \<and> \<not> is_slash c))"
proof -
  from ext_of_shape [of "basename p"] consider "extname p = []"
    | r where "extname p = CHR ''.'' # r" "\<forall>c \<in> set r. \<not> is_dot c" "set r \<subseteq> set (basename p)"
    unfolding extname_def by blast
  then show ?thesis
  proof cases
    case 1
    then show ?thesis ..
  next
    case 2
    from 2(3) have "\<forall>c \<in> set r. \<not> is_slash c"
      using set_basename [of _ p] by blast
    with 2(1,2) show ?thesis by blast
  qed
qed

lemma generated_not_dots: "toString n @ CHR ''.'' # r \<noteq> ''..''"
proof
  assume a: "toString n @ CHR ''.'' # r = ''..''"
  obtain c cs where t: "toString n = c # cs"
    using toString_nonempty [of n] by (cases "toString n") auto
  with a have "c = CHR ''.''" by simp
  with t have "CHR ''.'' \<in> set (toString n)" by simp
  then have "\<not> is_dot (CHR ''.'')" by (rule toString_plain [THEN conjunct1])
  then show False by (simp add: is_dot_def)
qed

lemma parse_name_generated: "parse_name (toString n @ extname p) = toString n"
proof -
  consider "extname p = []"
    | r where "extname p = CHR ''.'' # r" "\<forall>c \<in> set r. \<not> is_dot c \<and> \<not> is_slash c"
    using extname_shape [of p] by blast
  then show ?thesis
  proof cases
    case 1
    have b: "basename (toString n) = toString n"
      by (rule basename_plain) (simp add: toString_plain)
    have e: "ext_of (toString n) = []"
      by (rule ext_of_no_dot) (simp add: toString_plain)
    show ?thesis
      unfolding 1 parse_name_def Let_def append_Nil2 b e by simp
  next
    case 2
    have "\<not> is_slash c" if "c \<in> set (toString n @ CHR ''.'' # r)" for c
      using that 2(2) toString_plain [of c n] by (auto simp: is_slash_def)
    then have b: "basename (toString n @ CHR ''.'' # r) = toString n @ CHR ''.'' # r"
      by (rule basename_plain)
    have "ext_of (toString n @ CHR ''.'' # r)
        = (if toString n = [] \<or> toString n @ CHR ''.'' # r = ''..'' then [] else CHR ''.'' # r)"
      by (rule ext_of_last_dot) (use 2(2) in blast)
    then have e: "ext_of (toString n @ CHR ''.'' # r) = CHR ''.'' # r"
      using toString_nonempty [of n] generated_not_dots [of n r] by (simp only: if_False simp_thms)
    show ?thesis
      unfolding 2(1) parse_name_def Let_def b e by simp
  qed
qed

subsection \<open>Writing the JSON text and reading it back\<close>

lemma dquote_not_backslash [simp]: "dquote \<noteq> backslash" "backslash \<noteq> dquote"
  by (simp_all add: dquote_def backslash_def)

lemma hex_value_hex_digit:
  fixes d :: nat
  assumes "d < 16"
  shows "hex_value (hex_digit d) = Some d"
  using assms by (auto simp: hex_digit_def digit_def hex_value_def)

lemma unicode_escape_control:
  assumes "(of_char c :: nat) < 32"
  shows "unicode_escape [CHR ''0'', CHR ''0'', hex_digit (of_char c div 16), hex_digit (of_char c mod 16)]
         = Some (of_char c)"
proof -
  have "hex_value (CHR ''0'') = Some 0"
    by (simp add: hex_value_def)
  moreover have "hex_value (hex_digit (of_char c div 16)) = Some (of_char c div 16)"
    using assms by (intro hex_value_hex_digit) simp
  moreover have "hex_value (hex_digit (of_char c mod 16)) = Some (of_char c mod 16)"
    by (intro hex_value_hex_digit) simp
  ultimately show ?thesis
    by (simp add: unicode_escape_def)
qed

lemma lex_string_escape_char:
  "lex_string acc (escape_char c @ rest) = lex_string (acc @ [c]) rest"
proof -
  consider (b) "c = CHR 0x08" | (t) "c = CHR 0x09" | (n) "c = CHR 0x0A" | (f) "c = CHR 0x0C"
    | (r) "c = CHR 0x0D" | (q) "c = dquote" | (s) "c = backslash"
    | (u) "c \<noteq> CHR 0x08" "c \<noteq> CHR 0x09" "c \<noteq> CHR 0x0A" "c \<noteq> CHR 0x0C" "c \<noteq> CHR 0x0D"
          "c \<noteq> dquote" "c \<noteq> backslash" "(of_char c :: nat) < 32"
    | (p) "c \<noteq> CHR 0x08" "c \<noteq> CHR 0x09" "c \<noteq> CHR 0x0A" "c \<noteq> CHR 0x0C" "c \<noteq> CHR 0x0D"
          "c \<noteq> dquote" "c \<noteq> backslash" "\<not> (of_char c :: nat) < 32"
    by blast
  then show ?thesis
  proof cases
    case b
    then show ?thesis
      by (simp add: escape_char_def lex_string.simps simple_escape_def dquote_def backslash_def)
  next
    case t
    then show ?thesis
      by (simp add: escape_char_def lex_string.simps simple_escape_def dquote_def backslash_def)
  next
    case n
    then show ?thesis
      by (simp add: escape_char_def lex_string.simps simple_escape_def dquote_def backslash_def)
  next
    case f
    then show ?thesis
      by (simp add: escape_char_def lex_string.simps simple_escape_def dquote_def backslash_def)
  next
    case r
    then show ?thesis
      by (simp add: escape_char_def lex_string.simps simple_escape_def dquote_def backslash_def)
  next
    case q
    then show ?thesis
      by (simp add: escape_char_def lex_string.simps simple_escape_def dquote_def backslash_def)
  next
    case s
    then show ?thesis
      by (simp add: escape_char_def lex_string.simps simple_escape_def dquote_def backslash_def)
  next
    case u
    have e: "escape_char c = [backslash, CHR ''u'', CHR ''0'', CHR ''0'',
              hex_digit (of_char c div 16), hex_digit (of_char c mod 16)]"
      using u by (simp add: escape_char_def)
    have v: "char_of (of_char c :: nat) = c" by simp
    show ?thesis
      unfolding e using u(8) unicode_escape_control [OF u(8)]
      by (simp add: lex_string.simps(2) [of _ backslash] v)
  next
    case p
    then have e: "escape_char c = [c]"
      by (simp add: escape_char_def)
    show ?thesis
      unfolding e using p by (simp add: lex_string.simps(2) [of _ c])
  qed
qed

lemma lex_string_quote:
  "lex_string acc (concat (map escape_char s) @ dquote # rest) = Parsed (acc @ s, rest)"
proof (induction s arbitrary: acc)
  case Nil
  show ?case by (simp add: lex_string.simps)
next
  case (Cons c s)
  have "lex_string acc (concat (map escape_char (c # s)) @ dquote # rest)
        = lex_string acc (escape_char c @ (concat (map escape_char s) @ dquote # rest))"
    by simp
  also have "\<dots> = lex_string (acc @ [c]) (concat (map escape_char s) @ dquote # rest)"
    by (rule lex_string_escape_char)
  also have "\<dots> = Parsed ((acc @ [c]) @ s, rest)"
    by (rule Cons.IH)
  finally show ?case by simp
qed


lemma is_digit_digit: "is_digit (digit d)"
  by (simp add: is_digit_def digit_def)

lemma digit_value: "d < 10 \<Longrightarrow> (of_char (digit d) :: int) - 48 = int d"
  by (auto simp: digit_def)

lemma toString_digits: "c \<in> set (toString n) \<Longrightarrow> is_digit c"
proof (induction n rule: toString.induct)
  case (1 n)
  show ?case
  proof (cases "n < 10")
    case True
    with "1.prems" show ?thesis
      by (simp add: toString.simps [of n] is_digit_digit)
  next
    case False
    with "1.prems" "1.IH" show ?thesis
      by (auto simp: toString.simps [of n] is_digit_digit)
  qed
qed

lemma digits_value_snoc: "digits_value (ds @ [c]) = 10 * digits_value ds + (of_char c - 48)"
  by (simp add: digits_value_def)

lemma digits_value_toString: "digits_value (toString n) = int n"
proof (induction n rule: toString.induct)
  case (1 n)
  show ?case
  proof (cases "n < 10")
    case True
    then have "toString n = [digit n]"
      by (simp add: toString.simps [of n])
    with True show ?thesis
      using digit_value [of n] by (simp add: digits_value_def)
  next
    case False
    then have t: "toString n = toString (n div 10) @ [digit (n mod 10)]"
      by (simp add: toString.simps [of n])
    have "digits_value (toString n) = 10 * int (n div 10) + int (n mod 10)"
      unfolding t digits_value_snoc using "1.IH" [OF False] digit_value [of "n mod 10"] by simp
    also have "\<dots> = int (10 * (n div 10) + n mod 10)"
      by (simp only: of_nat_add of_nat_mult of_nat_numeral)
    also have "\<dots> = int n"
      by simp
    finally show ?thesis .
  qed
qed

lemma toString_hd: "0 < n \<Longrightarrow> hd (toString n) \<noteq> CHR ''0''"
proof (induction n rule: toString.induct)
  case (1 n)
  show ?case
  proof (cases "n < 10")
    case True
    with "1.prems" show ?thesis
      by (simp add: toString.simps [of n] digit_def)
  next
    case False
    then have t: "toString n = toString (n div 10) @ [digit (n mod 10)]"
      by (simp add: toString.simps [of n])
    from False have "0 < n div 10" by simp
    with "1.IH" [OF False] have "hd (toString (n div 10)) \<noteq> CHR ''0''" by simp
    then show ?thesis
      unfolding t using toString_nonempty [of "n div 10"] by simp
  qed
qed

lemma toString_leading_zero: "\<not> (hd (toString n) = CHR ''0'' \<and> 1 < length (toString n))"
proof (cases "n < 10")
  case True
  then show ?thesis by (simp add: toString.simps [of n])
next
  case False
  then have "0 < n" by simp
  then show ?thesis using toString_hd by blast
qed

lemma span_digits:
  assumes "\<not> is_digit c"
  shows "takeWhile is_digit (toString n @ c # rest) = toString n"
    and "dropWhile is_digit (toString n @ c # rest) = c # rest"
proof -
  have "takeWhile is_digit (toString n @ c # rest) = toString n @ takeWhile is_digit (c # rest)"
    by (rule takeWhile_append2) (rule toString_digits)
  with assms show "takeWhile is_digit (toString n @ c # rest) = toString n" by simp
  have "dropWhile is_digit (toString n @ c # rest) = dropWhile is_digit (c # rest)"
    by (rule dropWhile_append2) (rule toString_digits)
  with assms show "dropWhile is_digit (toString n @ c # rest) = c # rest" by simp
qed

lemma toString_Cons: "\<exists>d ds. toString n = d # ds \<and> is_digit d"
proof -
  obtain d ds where t: "toString n = d # ds"
    using toString_nonempty [of n] by (cases "toString n") auto
  then have "d \<in> set (toString n)" by simp
  then have "is_digit d" by (rule toString_digits)
  with t show ?thesis by blast
qed

lemma minus_not_digit: "\<not> is_digit (CHR ''-'')"
  by (simp add: is_digit_def)

lemma lex_number_text:
  assumes safe: "\<bar>n\<bar> \<le> MAX_SAFE_INTEGER"
    and c: "\<not> is_digit c" "c \<notin> set ''.eE''"
  shows "lex_number (number_text n @ c # rest) = Parsed (TNumber n)"
proof (cases "n < 0")
  case True
  let ?m = "nat (- n)"
  from True have m: "int ?m = - n" "0 < ?m" by simp_all
  have v: "digits_value (toString ?m) = - n"
    using digits_value_toString [of ?m] m by simp
  have lz: "\<not> (hd (toString ?m) = CHR ''0'' \<and> 1 < length (toString ?m))"
    by (rule toString_leading_zero)
  from True have "number_text n @ c # rest = CHR ''-'' # toString ?m @ c # rest"
    by (simp add: number_text_def)
  then show ?thesis
    using True safe c lz toString_nonempty [of ?m]
    by (simp add: lex_number_def span_digits [OF c(1)] v Let_def)
next
  case False
  let ?m = "nat n"
  from False have m: "int ?m = n" by simp
  have v: "digits_value (toString ?m) = n"
    using digits_value_toString [of ?m] m by simp
  have lz: "\<not> (hd (toString ?m) = CHR ''0'' \<and> 1 < length (toString ?m))"
    by (rule toString_leading_zero)
  obtain d ds where t: "toString ?m = d # ds" and d: "is_digit d"
    using toString_Cons [of ?m] by blast
  from d have nm: "d \<noteq> CHR ''-''"
    using minus_not_digit by blast
  from False have e: "number_text n @ c # rest = toString ?m @ c # rest"
    by (simp add: number_text_def)
  have h: "hd (toString ?m @ c # rest) \<noteq> CHR ''-''"
    using t nm by simp
  show ?thesis
    unfolding e using False safe c lz toString_nonempty [of ?m] h
    by (simp add: lex_number_def span_digits [OF c(1)] v Let_def)
qed


lemma tokens_space: "tokens (CHR '' '' # cs) = tokens cs"
  by (simp add: tokens.simps(2) is_ws_def)

lemma tokens_newline: "tokens (newline i @ rest) = tokens rest"
proof -
  have "tokens (replicate i (CHR '' '') @ rest) = tokens rest"
    by (induction i) (simp_all add: tokens_space)
  then show ?thesis
    by (simp add: newline_def tokens.simps(2) is_ws_def)
qed

lemma tokens_punctuation:
  "tokens (CHR ''['' # cs) = cons_token LBracket (tokens cs)"
  "tokens (CHR '']'' # cs) = cons_token RBracket (tokens cs)"
  "tokens (CHR ''{'' # cs) = cons_token LBrace (tokens cs)"
  "tokens (CHR ''}'' # cs) = cons_token RBrace (tokens cs)"
  "tokens (CHR '','' # cs) = cons_token Comma (tokens cs)"
  "tokens (CHR '':'' # cs) = cons_token Colon (tokens cs)"
  by (simp_all add: tokens.simps(2) is_ws_def)

lemma tokens_quote: "tokens (quote s @ rest) = cons_token (TString s) (tokens rest)"
proof -
  have "tokens (dquote # concat (map escape_char s) @ dquote # rest)
        = (case lex_string [] (concat (map escape_char s) @ dquote # rest) of
             Parsed (str, rest) \<Rightarrow> cons_token (TString str) (tokens rest)
           | NotJSON \<Rightarrow> NotJSON
           | Unmodelled \<Rightarrow> Unmodelled)"
    by (simp add: tokens.simps(2) is_ws_def dquote_def)
  then show ?thesis
    by (simp add: quote_def lex_string_quote)
qed

lemma tokens_null:
  "tokens (CHR ''n'' # CHR ''u'' # CHR ''l'' # CHR ''l'' # rest) = cons_token TNull (tokens rest)"
  by (simp add: tokens.simps(2) is_ws_def is_digit_def dquote_def)

lemma digit_is_no_other_token:
  assumes "is_digit d"
  shows "\<not> is_ws d" "d \<noteq> CHR ''[''" "d \<noteq> CHR '']''" "d \<noteq> CHR ''{''" "d \<noteq> CHR ''}''"
    "d \<noteq> CHR '',''" "d \<noteq> CHR '':''" "d \<noteq> dquote"
  using assms by (auto simp: is_digit_def is_ws_def dquote_def)

lemma tokens_number:
  assumes safe: "\<bar>n\<bar> \<le> MAX_SAFE_INTEGER"
  shows "tokens (number_text n @ newline i @ rest) = cons_token (TNumber n) (tokens rest)"
proof -
  let ?c = "CHR 0x0A" and ?rest = "replicate i (CHR '' '') @ rest"
  have c: "\<not> is_digit ?c" "?c \<notin> set ''.eE''"
    by (simp_all add: is_digit_def)
  have form: "number_text n @ newline i @ rest = number_text n @ ?c # ?rest"
    by (simp add: newline_def)
  have num: "lex_number (number_text n @ ?c # ?rest) = Parsed (TNumber n)"
    using safe c by (rule lex_number_text)
  have after: "tokens (?c # ?rest) = tokens rest"
    using tokens_newline [of i rest] by (simp add: newline_def)
  obtain x xs where x: "number_text n @ ?c # ?rest = x # xs"
    and first: "x = CHR ''-'' \<or> is_digit x"
    and other: "\<not> is_ws x" "x \<noteq> CHR ''[''" "x \<noteq> CHR '']''" "x \<noteq> CHR ''{''" "x \<noteq> CHR ''}''"
      "x \<noteq> CHR '',''" "x \<noteq> CHR '':''" "x \<noteq> dquote"
    and rest: "dropWhile is_digit xs = ?c # ?rest"
  proof (cases "n < 0")
    case True
    show ?thesis
    proof (rule that)
      show "number_text n @ ?c # ?rest = CHR ''-'' # (toString (nat (- n)) @ ?c # ?rest)"
        using True by (simp add: number_text_def)
      show "dropWhile is_digit (toString (nat (- n)) @ ?c # ?rest) = ?c # ?rest"
        using c(1) by (rule span_digits)
    qed (simp_all add: is_ws_def dquote_def)
  next
    case False
    obtain d ds where t: "toString (nat n) = d # ds" and d: "is_digit d"
      using toString_Cons [of "nat n"] by blast
    have "dropWhile is_digit (toString (nat n) @ ?c # ?rest) = ?c # ?rest"
      using c(1) by (rule span_digits)
    with t d have dr: "dropWhile is_digit (ds @ ?c # ?rest) = ?c # ?rest"
      by simp
    show ?thesis
    proof (rule that)
      show "number_text n @ ?c # ?rest = d # (ds @ ?c # ?rest)"
        using False t by (simp add: number_text_def)
      show "d = CHR ''-'' \<or> is_digit d" using d ..
      show "dropWhile is_digit (ds @ ?c # ?rest) = ?c # ?rest" by (rule dr)
    qed (rule digit_is_no_other_token [OF d])+
  qed
  have "tokens (x # xs) = cons_token (TNumber n) (tokens (dropWhile is_digit xs))"
    using first other num [unfolded x] by (simp add: tokens.simps(2) [of x xs])
  then show ?thesis
    unfolding form x rest after .
qed

lemma foldr_cons_token: "foldr cons_token ts (Parsed us) = Parsed (ts @ us)"
  by (induction ts) (simp_all add: cons_token_def)

lemma tokens_stringify_record:
  assumes "\<bar>uploadedAt r\<bar> \<le> MAX_SAFE_INTEGER"
  shows "tokens (stringify_record r @ rest) = foldr cons_token (record_tokens r) (tokens rest)"
  using assms
  by (cases "thumbnail r")
    (simp_all add: stringify_record_def member_text_def record_tokens_def tokens_newline
      tokens_punctuation tokens_quote tokens_null tokens_space tokens_number)


lemma tokens_elements:
  assumes "safe_integers rs" and "rs \<noteq> []"
  shows "tokens (elements rs @ rest) = foldr cons_token (collection_tokens rs) (tokens rest)"
  using assms
proof (induction rs rule: elements.induct)
  case 1
  then show ?case by simp
next
  case (2 r)
  then show ?case
    by (simp add: safe_integers_def tokens_newline tokens_stringify_record)
next
  case (3 r r' rs)
  from "3.prems" have "safe_integers (r' # rs)" and r: "\<bar>uploadedAt r\<bar> \<le> MAX_SAFE_INTEGER"
    by (simp_all add: safe_integers_def)
  with "3.IH" have "tokens (elements (r' # rs) @ rest)
      = foldr cons_token (collection_tokens (r' # rs)) (tokens rest)"
    by simp
  then show ?case
    by (simp add: tokens_newline tokens_stringify_record [OF r] tokens_punctuation)
qed

lemma tokens_stringify:
  assumes "safe_integers data"
  shows "tokens (array_text data)
         = Parsed (LBracket # (if data = [] then [] else collection_tokens data) @ [RBracket])"
proof (cases "data = []")
  case True
  then show ?thesis
    by (simp add: array_text_def tokens_punctuation cons_token_def)
next
  case False
  have "tokens (newline 0 @ '']'') = Parsed [RBracket]"
    by (simp add: tokens_newline tokens_punctuation cons_token_def)
  with False tokens_elements [OF assms False, of "newline 0 @ '']''"] show ?thesis
    by (simp add: array_text_def tokens_punctuation foldr_cons_token cons_token_def)
qed

lemma read_record_tokens: "read_record (record_tokens r) = Some r"
  by (cases "thumbnail r")
    (simp_all add: read_record_def record_tokens_def the_string_def the_nullable_def the_number_def)

lemma record_tokens_shape:
  "record_tokens r = LBrace # tl (record_tokens r)" "length (record_tokens r) = 25"
  by (simp_all add: record_tokens_def)

lemma read_records_record:
  "read_records (record_tokens r @ rest)
   = (case rest of
        [RBracket] \<Rightarrow> Some [r]
      | Comma # rest' \<Rightarrow> map_option ((#) r) (read_records rest')
      | _ \<Rightarrow> None)"
proof -
  let ?ts = "tl (record_tokens r)"
  have "read_records (LBrace # (?ts @ rest))
      = (case read_record (LBrace # take 24 (?ts @ rest)) of
           None \<Rightarrow> None
         | Some r \<Rightarrow>
             (case drop 24 (?ts @ rest) of
                [RBracket] \<Rightarrow> Some [r]
              | Comma # rest' \<Rightarrow> map_option ((#) r) (read_records rest')
              | _ \<Rightarrow> None))"
    by (rule read_records.simps(2))
  moreover have "take 24 (?ts @ rest) = ?ts" "drop 24 (?ts @ rest) = rest"
    by (simp_all add: record_tokens_shape(2))
  moreover have "LBrace # ?ts = record_tokens r"
    by (rule record_tokens_shape(1) [symmetric])
  moreover have "LBrace # (?ts @ rest) = record_tokens r @ rest"
    using record_tokens_shape(1) [of r] by (metis append_Cons)
  ultimately show ?thesis
    by (simp add: read_record_tokens)
qed

lemma read_records_collection:
  "data \<noteq> [] \<Longrightarrow> read_records (collection_tokens data @ [RBracket]) = Some data"
proof (induction data rule: collection_tokens.induct)
  case 1
  then show ?case by simp
next
  case (2 r)
  show ?case
    by (simp add: read_records_record)
next
  case (3 r r' rs)
  then have "read_records (collection_tokens (r' # rs) @ [RBracket]) = Some (r' # rs)"
    by simp
  then show ?case
    by (simp add: read_records_record)
qed

lemma collection_tokens_nonempty: "data \<noteq> [] \<Longrightarrow> collection_tokens data \<noteq> []"
  by (induction data rule: collection_tokens.induct) (simp_all add: record_tokens_def)

lemma JSON_round_trip:
  assumes "safe_integers data"
  shows "JSON_parse_fragment (array_text data) = Parsed data"
proof (cases "data = []")
  case True
  with tokens_stringify [OF assms] show ?thesis
    by (simp add: JSON_parse_fragment_def)
next
  case False
  with tokens_stringify [OF assms] collection_tokens_nonempty [OF False]
    read_records_collection [OF False]
  show ?thesis
    by (simp add: JSON_parse_fragment_def)
qed

subsection \<open>What an upload does to the metadata document\<close>

text \<open>
  The files of a request are staged under \<open>uploads/temp/\<close> and moved under
  \<open>uploads/\<close>: neither move touches the metadata document.
\<close>

lemma staged_media: "staged req \<Longrightarrow> files_media req = Some m \<Longrightarrow> path m \<noteq> metadataFile"
  by (auto simp: staged_def metadataFile_def prefix_def)

lemma staged_thumbnail: "staged req \<Longrightarrow> files_thumbnail req = Some t \<Longrightarrow> path t \<noteq> metadataFile"
  by (auto simp: staged_def metadataFile_def prefix_def)

lemma renameSync_elsewhere:
  "renameSync f src dst = Inr f' \<Longrightarrow> src \<noteq> p \<Longrightarrow> dst \<noteq> p \<Longrightarrow> f' p = f p"
  by (auto simp: renameSync_def split: option.splits)

lemma moveMedia_metadataFile:
  assumes "renameSync f (path m) (path_join [''uploads'', mediaType m, mediaFilename now1 m]) = Inr f'"
    and "staged req" and "files_media req = Some m"
  shows "f' metadataFile = f metadataFile"
proof -
  have "path_join [''uploads'', mediaType m, mediaFilename now1 m] \<noteq> metadataFile"
    by (simp add: metadataFile_def)
  with assms(1) staged_media [OF assms(2,3)] show ?thesis
    by (rule renameSync_elsewhere)
qed

lemma moveThumbnail_metadataFile:
  assumes "moveThumbnail naming now1 req m f = Inr f'" and "staged req"
  shows "f' metadataFile = f metadataFile"
proof (cases "files_thumbnail req")
  case None
  with assms show ?thesis by (simp add: moveThumbnail_def)
next
  case (Some t)
  with assms have "renameSync f (path t)
      (path_join [''uploads/thumbnails'', thumbFilename naming now1 m t]) = Inr f'"
    by (simp add: moveThumbnail_def)
  moreover have "path t \<noteq> metadataFile"
    using assms(2) Some by (rule staged_thumbnail)
  moreover have "path_join [''uploads/thumbnails'', thumbFilename naming now1 m t] \<noteq> metadataFile"
    by (simp add: metadataFile_def)
  ultimately show ?thesis by (rule renameSync_elsewhere)
qed

lemma upload_completed:
  assumes m: "files_media req = Some m" and st: "staged req"
    and up: "upload naming P S now1 now2 req f = (f', Inr rep)"
  shows "rep = \<lparr> status = 200, content = Json (JObj [(''message'', JStr ''Upload successful.'')]) \<rparr>
    \<and> (\<exists>f2. f2 metadataFile = f metadataFile
          \<and> saveMetadata S f2 (collection P f @ [pushedEntry naming now1 now2 req m]) = Inr f')"
proof -
  from up m obtain f1 f2 where
    r1: "renameSync f (path m) (path_join [''uploads'', mediaType m, mediaFilename now1 m]) = Inr f1"
    and r2: "moveThumbnail naming now1 req m f1 = Inr f2"
    and r3: "pushMetadata P S f2 (pushedEntry naming now1 now2 req m) = Inr f'"
    and rep: "rep = \<lparr> status = 200, content = Json (JObj [(''message'', JStr ''Upload successful.'')]) \<rparr>"
    by (auto simp: upload_def split: sum.splits)
  from moveMedia_metadataFile [OF r1 st m] moveThumbnail_metadataFile [OF r2 st]
  have same: "f2 metadataFile = f metadataFile"
    by simp
  then have "collection P f2 = collection P f"
    by (rule collection_cong)
  with r3 have "saveMetadata S f2 (collection P f @ [pushedEntry naming now1 now2 req m]) = Inr f'"
    by (simp add: pushMetadata_def readMetadata_collection)
  with same rep show ?thesis by blast
qed

lemma collection_after_upload:
  assumes m: "files_media req = Some m" and st: "staged req"
    and up: "upload naming P S now1 now2 req f = (f', Inr rep)"
    and ser: "serializable P S (collection P f @ [pushedEntry naming now1 now2 req m])"
  shows "collection P f' = collection P f @ [pushedEntry naming now1 now2 req m]"
proof -
  from upload_completed [OF m st up] obtain f2 where
    "saveMetadata S f2 (collection P f @ [pushedEntry naming now1 now2 req m]) = Inr f'"
    by blast
  from readMetadata_after_save [OF this, of P] ser show ?thesis
    by (simp add: collection_def serializable_def)
qed

lemma collection_after_failed_upload:
  assumes st: "staged req" and up: "upload naming P S now1 now2 req f = (f', Inl e)"
  shows "collection P f' = collection P f"
proof (cases "files_media req")
  case None
  with up show ?thesis by (simp add: upload_def)
next
  case (Some m)
  show ?thesis
  proof (cases "renameSync f (path m) (path_join [''uploads'', mediaType m, mediaFilename now1 m])")
    case (Inl e1)
    with up Some show ?thesis by (simp add: upload_def)
  next
    case r1: (Inr f1)
    have c1: "collection P f1 = collection P f"
      using moveMedia_metadataFile [OF r1 st Some] by (rule collection_cong)
    show ?thesis
    proof (cases "moveThumbnail naming now1 req m f1")
      case (Inl e2)
      with up Some r1 c1 show ?thesis by (simp add: upload_def)
    next
      case r2: (Inr f2)
      have c2: "collection P f2 = collection P f1"
        using moveThumbnail_metadataFile [OF r2 st] by (rule collection_cong)
      from up Some r1 r2 have "f' = f2"
        by (auto simp: upload_def split: sum.splits)
      with c1 c2 show ?thesis by simp
    qed
  qed
qed

text \<open>
  The handler does complete when the staged files are there (the thumbnail apart from the
  media file) and the metadata document can be written.
\<close>

lemma upload_completes:
  assumes m: "files_media req = Some m" and st: "staged req"
    and media: "f (path m) \<noteq> None"
    and thumb: "\<And>t. files_thumbnail req = Some t \<Longrightarrow> path t \<noteq> path m \<and> f (path t) \<noteq> None"
    and doc: "f metadataFile \<noteq> Some Unreadable"
  shows "\<exists>f'. upload naming P S now1 now2 req f
           = (f', Inr \<lparr> status = 200, content = Json (JObj [(''message'', JStr ''Upload successful.'')]) \<rparr>)"
proof -
  let ?dst = "path_join [''uploads'', mediaType m, mediaFilename now1 m]"
  from media obtain n where n: "f (path m) = Some n" by blast
  define f1 where "f1 = (f(path m := None))(?dst \<mapsto> n)"
  have r1: "renameSync f (path m) ?dst = Inr f1"
    by (simp add: renameSync_def n f1_def)
  have "\<exists>f2. moveThumbnail naming now1 req m f1 = Inr f2"
  proof (cases "files_thumbnail req")
    case None
    then show ?thesis by (simp add: moveThumbnail_def)
  next
    case (Some t)
    with thumb have "path t \<noteq> path m" "f (path t) \<noteq> None" by blast+
    then have "f1 (path t) \<noteq> None"
      by (simp add: f1_def)
    with Some show ?thesis
      by (auto simp: moveThumbnail_def renameSync_def)
  qed
  then obtain f2 where r2: "moveThumbnail naming now1 req m f1 = Inr f2" ..
  from moveMedia_metadataFile [OF r1 st m] moveThumbnail_metadataFile [OF r2 st] doc
  have "f2 metadataFile \<noteq> Some Unreadable" by simp
  then have "\<exists>f3. pushMetadata P S f2 (pushedEntry naming now1 now2 req m) = Inr f3"
    by (auto simp: pushMetadata_def readMetadata_collection saveMetadata_def writeFileSync_def
        split: option.splits node.splits)
  then obtain f3 where r3: "pushMetadata P S f2 (pushedEntry naming now1 now2 req m) = Inr f3" ..
  from m r1 r2 r3 show ?thesis
    by (simp add: upload_def)
qed

lemma pushedEntry_fields:
  "filename (pushedEntry naming now1 now2 req m) = mediaFilename now1 m"
  "videoName (pushedEntry naming now1 now2 req m) = js_or (body_videoName req) (originalname m)"
  "username (pushedEntry naming now1 now2 req m) = js_or (body_username req) ''Unknown''"
  "type (pushedEntry naming now1 now2 req m) = mediaType m"
  "uploadedAt (pushedEntry naming now1 now2 req m) = int now2"
  by (simp_all add: pushedEntry_def metadataEntry_def split: option.splits)

subsection \<open>The metadata store\<close>

text \<open>
  C6. Whatever the state of the metadata document (absent, present and unreadable,
  present and not JSON, or valid), \<open>readMetadata\<close> returns to its caller without
  throwing, and what it returns is the empty array when the document is absent, when it
  cannot be read and when it is not valid JSON. (A valid document is returned as parsed.)
\<close>

theorem readMetadata_never_throws:
  "(\<exists>xs. readMetadata P f = Inr xs)
   \<and> (f metadataFile = None \<longrightarrow> readMetadata P f = Inr [])
   \<and> (f metadataFile = Some Unreadable \<longrightarrow> readMetadata P f = Inr [])
   \<and> (\<forall>s. f metadataFile = Some (File s) \<and> P s = None \<longrightarrow> readMetadata P f = Inr [])
   \<and> (\<forall>s d. f metadataFile = Some (File s) \<and> P s = Some d \<longrightarrow> readMetadata P f = Inr d)"
  by (auto simp: readMetadata_def readMetadata_try_def readFileSync_def existsSync_def
        JSON_parse_def split: option.splits node.splits sum.splits)

theorem readMetadata_never_throws_witness:
  "readMetadata (table_parse documents) Map.empty = Inr []
   \<and> readMetadata (table_parse documents) [metadataFile \<mapsto> Unreadable] = Inr []
   \<and> readMetadata (table_parse documents) [metadataFile \<mapsto> File ''[sunset, harb''] = Inr []
   \<and> readMetadata (table_parse documents) disk = Inr library"
  using readMetadata_never_throws [of "table_parse documents" Map.empty]
    readMetadata_never_throws [of "table_parse documents" "[metadataFile \<mapsto> Unreadable]"]
    readMetadata_never_throws [of "table_parse documents" "[metadataFile \<mapsto> File ''[sunset, harb'']"]
    readMetadata_never_throws [of "table_parse documents" disk]
  by (simp add: table_parse_def documents_def disk_def metadataFile_def)

text \<open>
  C10. Round trip of the store. An array of records whose timestamps are safe integers is
  JSON-serializable: the text \<open>JSON.stringify(data, null, 2)\<close> prints for it parses back
  to the same array. For every such array, once \<open>saveMetadata\<close> has written it,
  \<open>readMetadata\<close> returns an equal array. \<open>S\<close> and \<open>P\<close> are any platform functions that
  extend the modelled fragment of \<open>JSON.stringify\<close> and \<open>JSON.parse\<close>.
\<close>

theorem save_then_read:
  assumes "safe_integers data"
    and "extends_stringify S" and "extends_parse P"
    and "saveMetadata S f data = Inr f'"
  shows "JSON_parse_fragment (array_text data) = Parsed data \<and> readMetadata P f' = Inr data"
proof -
  have r: "JSON_parse_fragment (array_text data) = Parsed data"
    using assms(1) by (rule JSON_round_trip)
  from assms(1,2) have s: "S data = array_text data"
    by (simp add: extends_stringify_def JSON_stringify_fragment_def)
  from assms(3) r have "P (array_text data) = Some data"
    by (simp add: extends_parse_def)
  with readMetadata_after_save [OF assms(4), of P] s r show ?thesis
    by simp
qed

theorem save_then_read_witness:
  "safe_integers library
   \<and> extends_stringify fragment_stringify \<and> extends_parse fragment_parse
   \<and> saveMetadata fragment_stringify disk library
       = Inr (disk(metadataFile \<mapsto> File (array_text library)))
   \<and> JSON_parse_fragment (array_text library) = Parsed library
   \<and> readMetadata fragment_parse (disk(metadataFile \<mapsto> File (array_text library))) = Inr library"
proof -
  have i: "safe_integers library"
    by (simp add: safe_integers_def MAX_SAFE_INTEGER_def sample_records)
  have s: "extends_stringify fragment_stringify"
    by (simp add: extends_stringify_def fragment_stringify_def)
  have p: "extends_parse fragment_parse"
    by (simp add: extends_parse_def fragment_parse_def)
  have w: "saveMetadata fragment_stringify disk library
      = Inr (disk(metadataFile \<mapsto> File (array_text library)))"
    using i by (simp add: saveMetadata_def writeFileSync_def disk_def fragment_stringify_def
        JSON_stringify_fragment_def)
  from save_then_read [OF i s p w] i s p w show ?thesis
    by simp
qed

subsection \<open>Listing and search\<close>

text \<open>
  C2. The listing handler answers a type other than \<open>videos\<close> and \<open>audios\<close> with status
  400 and a JSON error object. For either of the two types and every metadata collection
  it returns exactly the records of that type, ordered by upload timestamp, latest first;
  records with the timestamps 100, 300, 200 come back in the order 300, 200, 100.
\<close>

theorem listing_cases:
  "(t \<notin> {''videos'', ''audios''} \<longrightarrow>
      listing P t f
      = Inr \<lparr> status = 400, content = Json (JObj [(''error'', JStr ''Invalid media type'')]) \<rparr>)
   \<and> (t \<in> {''videos'', ''audios''} \<longrightarrow>
      (\<exists>ys. listing P t f = Inr \<lparr> status = 200, content = Media ys \<rparr>
         \<and> mset ys = mset (filter (\<lambda>r. type r = t) (collection P f))
         \<and> sorted_wrt (\<lambda>a b. uploadedAt a \<ge> uploadedAt b) ys))"
proof -
  have "sorted_wrt (\<lambda>a b. uploadedAt a \<ge> uploadedAt b) (sort_key (\<lambda>a. - uploadedAt a) xs)" for xs :: "mediaRecord list"
    using sorted_sort_key [of "\<lambda>a. - uploadedAt a" xs] by (simp add: sorted_map)
  then show ?thesis
    by (auto simp: listing_def readMetadata_collection)
qed

theorem listing_cases_witness:
  "listing (table_parse documents) ''images'' disk
     = Inr \<lparr> status = 400, content = Json (JObj [(''error'', JStr ''Invalid media type'')]) \<rparr>
   \<and> map uploadedAt [sunset, harbour, morning] = [100, 300, 200]
   \<and> listing (table_parse documents) ''videos'' disk
     = Inr \<lparr> status = 200, content = Media [harbour, morning, sunset] \<rparr>
   \<and> map uploadedAt [harbour, morning, sunset] = [300, 200, 100]
   \<and> listing (table_parse documents) ''audios'' disk
     = Inr \<lparr> status = 200, content = Media [homeward] \<rparr>"
  using listing_cases [of "''images''" "table_parse documents" disk]
    listing_cases [of "''videos''" "table_parse documents" disk]
  by (simp add: listing_def readMetadata_def readMetadata_try_def readFileSync_def existsSync_def
      JSON_parse_def table_parse_def documents_def disk_def metadataFile_def sample_records)



subsection \<open>Requests without a media file, classification, supporters\<close>

text \<open>
  C7. An upload request without a media file is answered with status 400 and a plain-text
  message; the handler moves no file and leaves the metadata store, and the whole file
  system, as they were.
\<close>

theorem upload_without_media:
  assumes "files_media req = None"
  shows "upload naming P S now1 now2 req f
         = (f, Inr \<lparr> status = 400, content = Text ''No media file uploaded.'' \<rparr>)"
  using assms by (simp add: upload_def)

theorem upload_without_media_witness:
  "files_media no_media = None
   \<and> upload thumbFilename_second (table_parse documents) (table_stringify documents) 1000 1001 no_media disk
       = (disk, Inr \<lparr> status = 400, content = Text ''No media file uploaded.'' \<rparr>)"
  using upload_without_media [of no_media thumbFilename_second "table_parse documents"
      "table_stringify documents" 1000 1001 disk]
  by (simp add: no_media_def)

text \<open>
  C4. The upload handler classifies a media file as a video (\<open>videos\<close>) exactly when its
  declared content type begins with \<open>video\<close>, and as audio (\<open>audios\<close>) in every other
  case, a picture included; the kind of the entry it pushes is never a third value.
\<close>

theorem mediaType_binary:
  "(mediaType mediaFile = ''videos'' \<longleftrightarrow> prefix ''video'' (mimetype mediaFile))
   \<and> (mediaType mediaFile = ''audios'' \<longleftrightarrow> \<not> prefix ''video'' (mimetype mediaFile))
   \<and> mediaType mediaFile \<in> {''videos'', ''audios''}
   \<and> type (pushedEntry naming now1 now2 req mediaFile) = mediaType mediaFile"
  by (simp add: mediaType_def pushedEntry_def metadataEntry_def split: option.splits)

theorem mediaType_binary_witness:
  "mediaType clip = ''videos'' \<and> mediaType picture = ''audios''
   \<and> type (pushedEntry thumbFilename_second 1000 1001 night_ride clip) = ''videos''"
  using mediaType_binary [of clip thumbFilename_second 1000 1001 night_ride]
    mediaType_binary [of picture thumbFilename_second 1000 1001 night_ride]
  by (simp add: clip_def picture_def)

text \<open>
  C8. When the supporters document is absent the handler returns the empty array with
  status 200; when reading it or parsing it fails, the empty array with status 500;
  otherwise the parsed contents of the document, unchanged, with status 200.
\<close>

theorem supporters_cases:
  "(f supportersFile = None \<longrightarrow>
      supporters PJ f = Inr \<lparr> status = 200, content = Json (JArr []) \<rparr>)
   \<and> (f supportersFile = Some Unreadable \<longrightarrow>
      supporters PJ f = Inr \<lparr> status = 500, content = Json (JArr []) \<rparr>)
   \<and> (\<forall>s. f supportersFile = Some (File s) \<and> PJ s = None \<longrightarrow>
      supporters PJ f = Inr \<lparr> status = 500, content = Json (JArr []) \<rparr>)
   \<and> (\<forall>s v. f supportersFile = Some (File s) \<and> PJ s = Some v \<longrightarrow>
      supporters PJ f = Inr \<lparr> status = 200, content = Json v \<rparr>)"
  by (simp add: supporters_def supporters_try_def existsSync_def readFileSync_def JSON_parse_def)

theorem supporters_cases_witness:
  "supporters (table_parse supporter_documents) disk
     = Inr \<lparr> status = 200, content = Json (JArr []) \<rparr>
   \<and> supporters (table_parse supporter_documents) (disk(supportersFile \<mapsto> Unreadable))
     = Inr \<lparr> status = 500, content = Json (JArr []) \<rparr>
   \<and> supporters (table_parse supporter_documents) (disk(supportersFile \<mapsto> File ''[{name: dee''))
     = Inr \<lparr> status = 500, content = Json (JArr []) \<rparr>
   \<and> supporters (table_parse supporter_documents) (disk(supportersFile \<mapsto> File ''[{name: dee, amount: 5}]''))
     = Inr \<lparr> status = 200,
             content = Json (JArr [JObj [(''name'', JStr ''dee''), (''amount'', JNum 5)]]) \<rparr>"
  using supporters_cases [of disk "table_parse supporter_documents"]
    supporters_cases [of "disk(supportersFile \<mapsto> Unreadable)" "table_parse supporter_documents"]
    supporters_cases [of "disk(supportersFile \<mapsto> File ''[{name: dee'')" "table_parse supporter_documents"]
    supporters_cases [of "disk(supportersFile \<mapsto> File ''[{name: dee, amount: 5}]'')" "table_parse supporter_documents"]
  by (simp add: table_parse_def supporter_documents_def disk_def metadataFile_def supportersFile_def)

subsection \<open>Uploads\<close>

text \<open>
  C1, amended. For every upload of a media file whose declared content type begins with
  \<open>video\<close>, staged by the multipart parser, and whatever the state of the metadata
  document: once the upload handler has completed, and provided the collection it wrote
  is JSON-serializable, the listing for \<open>videos\<close> contains a record whose title is the
  submitted title when one was submitted and is not empty, and the original filename of
  the media file when the title field is omitted or empty; and whose uploader name is the
  submitted name when one was submitted and is not empty, and \<open>Unknown\<close> when the field is
  omitted or empty.
\<close>

theorem video_upload_listed:
  assumes m: "files_media req = Some m" and st: "staged req"
    and video: "prefix ''video'' (mimetype m)"
    and up: "upload naming P S now1 now2 req f = (f', Inr rep)"
    and ser: "serializable P S (collection P f @ [pushedEntry naming now1 now2 req m])"
  shows "\<exists>ys r. listing P ''videos'' f' = Inr \<lparr> status = 200, content = Media ys \<rparr>
           \<and> r \<in> set ys
           \<and> (body_videoName req = None \<or> body_videoName req = Some [] \<longrightarrow> videoName r = originalname m)
           \<and> (\<forall>s. body_videoName req = Some s \<and> s \<noteq> [] \<longrightarrow> videoName r = s)
           \<and> (body_username req = None \<or> body_username req = Some [] \<longrightarrow> username r = ''Unknown'')
           \<and> (\<forall>s. body_username req = Some s \<and> s \<noteq> [] \<longrightarrow> username r = s)"
proof -
  let ?e = "pushedEntry naming now1 now2 req m"
  let ?ys = "sort_key (\<lambda>a. - uploadedAt a) (filter (\<lambda>item. type item = ''videos'') (collection P f @ [?e]))"
  have l: "listing P ''videos'' f' = Inr \<lparr> status = 200, content = Media ?ys \<rparr>"
    by (simp add: listing_def readMetadata_collection collection_after_upload [OF m st up ser])
  have "type ?e = ''videos''"
    using video by (simp add: pushedEntry_fields mediaType_def)
  then have i: "?e \<in> set ?ys" by simp
  have "(body_videoName req = None \<or> body_videoName req = Some [] \<longrightarrow> videoName ?e = originalname m)
      \<and> (\<forall>s. body_videoName req = Some s \<and> s \<noteq> [] \<longrightarrow> videoName ?e = s)
      \<and> (body_username req = None \<or> body_username req = Some [] \<longrightarrow> username ?e = ''Unknown'')
      \<and> (\<forall>s. body_username req = Some s \<and> s \<noteq> [] \<longrightarrow> username ?e = s)"
    by (auto simp: pushedEntry_fields js_or_def)
  with l i show ?thesis by blast
qed

theorem video_upload_listed_witness:
  "files_media night_ride = Some clip \<and> staged night_ride \<and> prefix ''video'' (mimetype clip)
   \<and> snd (upload thumbFilename_second (table_parse documents) (table_stringify documents)
             1000 1001 night_ride disk)
       = Inr \<lparr> status = 200, content = Json (JObj [(''message'', JStr ''Upload successful.'')]) \<rparr>
   \<and> listing (table_parse documents) ''videos''
         (fst (upload thumbFilename_second (table_parse documents) (table_stringify documents)
                 1000 1001 night_ride disk))
       = Inr \<lparr> status = 200, content = Media [night_ride_second, harbour, morning, sunset] \<rparr>
   \<and> videoName night_ride_second = ''Night Ride'' \<and> username night_ride_second = ''Unknown''"
proof -
  let ?P = "table_parse documents" and ?S = "table_stringify documents"
  let ?u = "upload thumbFilename_second ?P ?S 1000 1001 night_ride disk"
  have m: "files_media night_ride = Some clip" by (simp add: night_ride_def)
  have st: "staged night_ride" by code_simp
  have v: "prefix ''video'' (mimetype clip)" by code_simp
  have r: "snd ?u = Inr \<lparr> status = 200, content = Json (JObj [(''message'', JStr ''Upload successful.'')]) \<rparr>"
    by code_simp
  then have up: "?u = (fst ?u, Inr \<lparr> status = 200, content = Json (JObj [(''message'', JStr ''Upload successful.'')]) \<rparr>)"
    by (simp add: prod_eq_iff)
  have ser: "serializable ?P ?S (collection ?P disk @ [pushedEntry thumbFilename_second 1000 1001 night_ride clip])"
    by code_simp
  have l: "listing ?P ''videos'' (fst ?u)
       = Inr \<lparr> status = 200, content = Media [night_ride_second, harbour, morning, sunset] \<rparr>"
    by code_simp
  have n: "videoName night_ride_second = ''Night Ride'' \<and> username night_ride_second = ''Unknown''"
    by (simp add: night_ride_second_def)
  from video_upload_listed [OF m st v up ser] m st v r l n show ?thesis
    by blast
qed

text \<open>
  C1 as stated fails for a title field that is submitted empty: \<open>videoName || originalname\<close>
  takes the empty string for a missing one. The upload \<open>untitled\<close> submits the title \<open>''\<close>;
  the listing then holds the titles \<open>clip.mp4\<close>, \<open>Harbour\<close>, \<open>Morning\<close> and \<open>Sunset Drive\<close>,
  and no record with the submitted title.
\<close>

theorem video_upload_title_counterexample:
  "files_media untitled = Some clip \<and> staged untitled \<and> prefix ''video'' (mimetype clip)
   \<and> body_videoName untitled = Some [] \<and> submitted_title untitled clip = []
   \<and> snd (upload thumbFilename_second (table_parse documents) (table_stringify documents)
             1000 1001 untitled disk)
       = Inr \<lparr> status = 200, content = Json (JObj [(''message'', JStr ''Upload successful.'')]) \<rparr>
   \<and> listing (table_parse documents) ''videos''
         (fst (upload thumbFilename_second (table_parse documents) (table_stringify documents)
                 1000 1001 untitled disk))
       = Inr \<lparr> status = 200, content = Media [untitled_entry, harbour, morning, sunset] \<rparr>
   \<and> submitted_title untitled clip \<notin> set (map videoName [untitled_entry, harbour, morning, sunset])"
  by code_simp

text \<open>
  C9. The metadata collection is append-only. A completed upload (of a staged request,
  writing a JSON-serializable collection) leaves the persisted collection equal to the
  previous one with exactly one record, the pushed entry, added at its end. Every other
  request (listing, search, static file, support, supporters) leaves the file system, and
  with it the store, as it was.
\<close>

theorem append_only:
  "(\<forall>req m f' rep.
      r = Upload req \<and> files_media req = Some m \<and> staged req
      \<and> handle naming P S PJ L T now1 now2 r f = (f', Inr rep)
      \<and> serializable P S (collection P f @ [pushedEntry naming now1 now2 req m])
      \<longrightarrow> collection P f' = collection P f @ [pushedEntry naming now1 now2 req m])
   \<and> ((\<forall>req. r \<noteq> Upload req) \<longrightarrow> fst (handle naming P S PJ L T now1 now2 r f) = f)"
proof (intro conjI allI impI)
  fix req m f' rep
  assume a: "r = Upload req \<and> files_media req = Some m \<and> staged req
      \<and> handle naming P S PJ L T now1 now2 r f = (f', Inr rep)
      \<and> serializable P S (collection P f @ [pushedEntry naming now1 now2 req m])"
  then have m: "files_media req = Some m" and st: "staged req"
    and ser: "serializable P S (collection P f @ [pushedEntry naming now1 now2 req m])"
    by blast+
  from a have "handle naming P S PJ L T now1 now2 (Upload req) f = (f', Inr rep)"
    by blast
  then have up: "upload naming P S now1 now2 req f = (f', Inr rep)"
    by (simp add: handle_def)
  from m st up ser show "collection P f' = collection P f @ [pushedEntry naming now1 now2 req m]"
    by (rule collection_after_upload)
next
  assume "\<forall>req. r \<noteq> Upload req"
  then show "fst (handle naming P S PJ L T now1 now2 r f) = f"
    by (cases r) (simp_all add: handle_def)
qed

theorem append_only_witness:
  "collection (table_parse documents) disk = library
   \<and> collection (table_parse documents)
        (fst (handle thumbFilename_second (table_parse documents) (table_stringify documents)
                (table_parse supporter_documents) ascii_toLowerCase ascii_trim
                1000 1001 (Upload night_ride) disk))
      = library @ [night_ride_second]
   \<and> fst (handle thumbFilename_second (table_parse documents) (table_stringify documents)
            (table_parse supporter_documents) ascii_toLowerCase ascii_trim
            1000 1001 (Search (Some ''drive'')) disk) = disk"
proof -
  let ?P = "table_parse documents" and ?S = "table_stringify documents"
  let ?h = "handle thumbFilename_second ?P ?S (table_parse supporter_documents)
              ascii_toLowerCase ascii_trim 1000 1001"
  have m: "files_media night_ride = Some clip" by (simp add: night_ride_def)
  have st: "staged night_ride" by code_simp
  have "snd (?h (Upload night_ride) disk)
      = Inr \<lparr> status = 200, content = Json (JObj [(''message'', JStr ''Upload successful.'')]) \<rparr>"
    by code_simp
  then have up: "?h (Upload night_ride) disk = (fst (?h (Upload night_ride) disk),
      Inr \<lparr> status = 200, content = Json (JObj [(''message'', JStr ''Upload successful.'')]) \<rparr>)"
    by (simp add: prod_eq_iff)
  have c: "collection ?P disk = library" by code_simp
  have e: "pushedEntry thumbFilename_second 1000 1001 night_ride clip = night_ride_second"
    by code_simp
  have ser: "serializable ?P ?S (collection ?P disk @ [pushedEntry thumbFilename_second 1000 1001 night_ride clip])"
    by code_simp
  from append_only [of "Upload night_ride" thumbFilename_second ?P ?S "table_parse supporter_documents"
      ascii_toLowerCase ascii_trim 1000 1001 disk]
    m st up ser
  have "collection ?P (fst (?h (Upload night_ride) disk))
      = collection ?P disk @ [pushedEntry thumbFilename_second 1000 1001 night_ride clip]"
    by blast
  moreover
  from append_only [of "Search (Some ''drive'')" thumbFilename_second ?P ?S "table_parse supporter_documents"
      ascii_toLowerCase ascii_trim 1000 1001 disk]
  have "fst (?h (Search (Some ''drive'')) disk) = disk"
    by simp
  ultimately show ?thesis
    using c e by simp
qed

subsection \<open>The name of the thumbnail\<close>

text \<open>
  In the second listing the generated media filename is the timestamp followed by the
  extension of the original media filename, and the thumbnail is named by the timestamp
  followed by the thumbnail's own extension: the base name of the media file with the
  thumbnail's extension. The entry records it under \<open>/media/thumbnails/\<close>, and the
  thumbnail is moved to that name under \<open>uploads/thumbnails/\<close>.
\<close>

lemma thumbnail_of_second_listing:
  "mediaFilename now1 m = toString now1 @ extname (originalname m)
   \<and> thumbFilename thumbFilename_second now1 m t = toString now1 @ extname (originalname t)
   \<and> (files_thumbnail req = Some t \<longrightarrow>
        thumbnail (pushedEntry thumbFilename_second now1 now2 req m)
        = Some (''/media/thumbnails/'' @ toString now1 @ extname (originalname t))
      \<and> moveThumbnail thumbFilename_second now1 req m f
        = renameSync f (path t) (''uploads/thumbnails/'' @ toString now1 @ extname (originalname t)))"
  by (simp add: mediaFilename_def thumbFilename_def thumbFilename_second_def parse_name_generated
      pushedEntry_def moveThumbnail_def)

text \<open>
  C5. The thumbnail is to be stored under the media file's base name (the generated media
  filename without its extension) followed by the thumbnail's original extension, and
  recorded as \<open>/media/thumbnails/\<close> followed by that name. The first listing (line 78)
  appends the thumbnail's extension to the whole media filename instead: the upload of
  \<open>clip.mp4\<close> with the thumbnail \<open>cover.jpg\<close> at time 1000 stores the thumbnail as
  \<open>1000.mp4.jpg\<close> and records \<open>/media/thumbnails/1000.mp4.jpg\<close>, where the base name
  with the extension is \<open>1000.jpg\<close>, the name the second listing gives it.
\<close>

theorem thumbnail_of_first_listing:
  "mediaFilename 1000 clip = ''1000.mp4'' \<and> extname (originalname cover) = ''.jpg''
   \<and> thumbFilename thumbFilename_first 1000 clip cover = ''1000.mp4.jpg''
   \<and> thumbFilename thumbFilename_second 1000 clip cover = ''1000.jpg''
   \<and> snd (upload_first (table_parse documents) (table_stringify documents) 1000 1001 night_ride disk)
       = Inr \<lparr> status = 200, content = Json (JObj [(''message'', JStr ''Upload successful.'')]) \<rparr>
   \<and> fst (upload_first (table_parse documents) (table_stringify documents) 1000 1001 night_ride disk)
        ''uploads/thumbnails/1000.mp4.jpg'' = Some (File ''(image)'')
   \<and> fst (upload_first (table_parse documents) (table_stringify documents) 1000 1001 night_ride disk)
        ''uploads/thumbnails/1000.jpg'' = None
   \<and> collection (table_parse documents)
        (fst (upload_first (table_parse documents) (table_stringify documents) 1000 1001 night_ride disk))
       = library @ [night_ride_first]
   \<and> thumbnail night_ride_first = Some ''/media/thumbnails/1000.mp4.jpg''"
  by code_simp

end
